theory Spec2Isabelle
  imports Complex_Main "HOL-Library.Product_Lexorder" "HOL-Library.Log_Nat"
begin

section \<open>Personal dashboard (app.py): a shallow embedding\<close>

text \<open>
  The handlers of \<^verbatim>\<open>app.py\<close> are modelled as functions over explicit inputs: the clock
  readings that \<^verbatim>\<open>datetime.now()\<close> and \<^verbatim>\<open>datetime.utcnow()\<close> return, the values that
  \<^verbatim>\<open>random.randint\<close> returns, the rows of the database tables and the JSON body of a
  request.  A Python exception is a value of type \<open>py_error\<close>.
\<close>

datatype py_error =
    ValueError | KeyError | OverflowError | IllegalMonthError | NotFound | OperationalError

subsection \<open>The datetime library\<close>

text \<open>
  \<^verbatim>\<open>datetime.date\<close> and its subclass \<^verbatim>\<open>datetime.datetime\<close> (naive: no time zone), by
  their fields.
\<close>

record date =
  year :: int
  month :: int
  day :: int

record datetime = date +
  hour :: int
  minute :: int
  second :: int
  microsecond :: int

definition MAXORDINAL :: int where
  "MAXORDINAL = 3652059"

definition MINYEAR :: int where
  "MINYEAR = 1"

definition MAXYEAR :: int where
  "MAXYEAR = 9999"

text \<open>\<^verbatim>\<open>year % 4 == 0 and (year % 100 != 0 or year % 400 == 0)\<close>\<close>

definition is_leap :: "int \<Rightarrow> bool" where
  "is_leap y = (y mod 4 = 0 \<and> (y mod 100 \<noteq> 0 \<or> y mod 400 = 0))"

text \<open>The table \<^verbatim>\<open>_DAYS_IN_MONTH\<close> (\<^verbatim>\<open>calendar.mdays\<close> has 0 at index 0), indexed by the month.\<close>

definition DAYS_IN_MONTH :: "int list" where
  "DAYS_IN_MONTH = [-1, 31, 28, 31, 30, 31, 30, 31, 31, 30, 31, 30, 31]"

definition days_in_month :: "int \<Rightarrow> int \<Rightarrow> int" where
  "days_in_month y m = (if m = 2 \<and> is_leap y then 29 else DAYS_IN_MONTH ! nat m)"

text \<open>The table \<^verbatim>\<open>_DAYS_BEFORE_MONTH\<close>: the days of a common year before the month.\<close>

definition DAYS_BEFORE_MONTH :: "int list" where
  "DAYS_BEFORE_MONTH = [-1, 0, 31, 59, 90, 120, 151, 181, 212, 243, 273, 304, 334]"

definition days_before_year :: "int \<Rightarrow> int" where
  "days_before_year y =
     (let y1 = y - 1 in y1 * 365 + y1 div 4 - y1 div 100 + y1 div 400)"

definition days_before_month :: "int \<Rightarrow> int \<Rightarrow> int" where
  "days_before_month y m =
     DAYS_BEFORE_MONTH ! nat m + (if m > 2 \<and> is_leap y then 1 else 0)"

text \<open>\<^verbatim>\<open>_ymd2ord\<close>: the ordinal of a date, 0001-01-01 being day 1.\<close>

definition ymd2ord :: "int \<Rightarrow> int \<Rightarrow> int \<Rightarrow> int" where
  "ymd2ord y m d = days_before_year y + days_before_month y m + d"

definition toordinal :: "'a date_scheme \<Rightarrow> int" where
  "toordinal d = ymd2ord (year d) (month d) (day d)"

text \<open>\<^verbatim>\<open>date.weekday()\<close>: Monday is 0, Sunday is 6.\<close>

definition weekday :: "'a date_scheme \<Rightarrow> int" where
  "weekday d = (toordinal d + 6) mod 7"

text \<open>
  \<^verbatim>\<open>_check_date_fields\<close>: the checks of the constructors \<^verbatim>\<open>date(y, m, d)\<close> and
  \<^verbatim>\<open>datetime(y, m, d)\<close>, which raise ValueError.
\<close>

definition check_date_fields :: "int \<Rightarrow> int \<Rightarrow> int \<Rightarrow> bool" where
  "check_date_fields y m d =
     (MINYEAR \<le> y \<and> y \<le> MAXYEAR \<and> 1 \<le> m \<and> m \<le> 12 \<and> 1 \<le> d \<and> d \<le> days_in_month y m)"

definition valid_date :: "'a date_scheme \<Rightarrow> bool" where
  "valid_date d = check_date_fields (year d) (month d) (day d)"

definition valid_datetime :: "datetime \<Rightarrow> bool" where
  "valid_datetime t =
     (valid_date t \<and> 0 \<le> hour t \<and> hour t \<le> 23 \<and> 0 \<le> minute t \<and> minute t \<le> 59
      \<and> 0 \<le> second t \<and> second t \<le> 59 \<and> 0 \<le> microsecond t \<and> microsecond t \<le> 999999)"

text \<open>
  The constructors take their arguments as C integers: an argument outside the range of
  \<^verbatim>\<open>int\<close> raises OverflowError, before the fields are checked.
\<close>

definition c_int :: "int \<Rightarrow> bool" where
  "c_int n = (- (2 ^ 31) \<le> n \<and> n < 2 ^ 31)"

definition new_date :: "int \<Rightarrow> int \<Rightarrow> int \<Rightarrow> py_error + date" where
  "new_date y m d =
     (if \<not> (c_int y \<and> c_int m \<and> c_int d) then Inl OverflowError
      else if check_date_fields y m d then Inr \<lparr>year = y, month = m, day = d\<rparr>
      else Inl ValueError)"

text \<open>\<^verbatim>\<open>datetime(y, m, d)\<close>: the time fields default to 0.\<close>

definition new_datetime :: "int \<Rightarrow> int \<Rightarrow> int \<Rightarrow> py_error + datetime" where
  "new_datetime y m d =
     (if \<not> (c_int y \<and> c_int m \<and> c_int d) then Inl OverflowError
      else if check_date_fields y m d
      then Inr \<lparr>year = y, month = m, day = d, hour = 0, minute = 0, second = 0, microsecond = 0\<rparr>
      else Inl ValueError)"

text \<open>\<^verbatim>\<open>datetime.date()\<close>\<close>

definition date_of :: "datetime \<Rightarrow> date" where
  "date_of t = \<lparr>year = year t, month = month t, day = day t\<rparr>"

text \<open>
  \<^verbatim>\<open>d + timedelta(days=1)\<close> and \<^verbatim>\<open>d - timedelta(days=1)\<close>, for a date or a datetime (the
  time fields are kept): the next and the previous day of the calendar.  The library
  goes through the ordinal, \<^verbatim>\<open>fromordinal(d.toordinal() + 1)\<close>, and raises OverflowError
  outside 0001-01-01 .. 9999-12-31; \<open>toordinal_next_day\<close> and \<open>toordinal_prev_day\<close>
  below relate the two.
\<close>

definition next_day :: "'a date_scheme \<Rightarrow> py_error + 'a date_scheme" where
  "next_day d =
     (if day d < days_in_month (year d) (month d) then Inr (d\<lparr>day := day d + 1\<rparr>)
      else if month d < 12 then Inr (d\<lparr>month := month d + 1, day := 1\<rparr>)
      else if year d < MAXYEAR then Inr (d\<lparr>year := year d + 1, month := 1, day := 1\<rparr>)
      else Inl OverflowError)"

definition prev_day :: "'a date_scheme \<Rightarrow> py_error + 'a date_scheme" where
  "prev_day d =
     (if 1 < day d then Inr (d\<lparr>day := day d - 1\<rparr>)
      else if 1 < month d
        then Inr (d\<lparr>month := month d - 1, day := days_in_month (year d) (month d - 1)\<rparr>)
      else if MINYEAR < year d then Inr (d\<lparr>year := year d - 1, month := 12, day := 31\<rparr>)
      else Inl OverflowError)"

text \<open>\<^verbatim>\<open>d + timedelta(days=k)\<close> and \<^verbatim>\<open>d - timedelta(days=k)\<close> for \<open>k \<ge> 0\<close>.\<close>

fun plus_days :: "'a date_scheme \<Rightarrow> nat \<Rightarrow> py_error + 'a date_scheme" where
  "plus_days d 0 = Inr d"
| "plus_days d (Suc k) = (case next_day d of Inl e \<Rightarrow> Inl e | Inr d' \<Rightarrow> plus_days d' k)"

fun minus_days :: "'a date_scheme \<Rightarrow> nat \<Rightarrow> py_error + 'a date_scheme" where
  "minus_days d 0 = Inr d"
| "minus_days d (Suc k) = (case prev_day d of Inl e \<Rightarrow> Inl e | Inr d' \<Rightarrow> minus_days d' k)"

text \<open>
  Naive datetimes compare by their fields, the year first; so do the DateTime columns
  of the database, stored as text with fixed-width fields.
\<close>

definition dt_key :: "datetime \<Rightarrow> int \<times> int \<times> int \<times> int \<times> int \<times> int \<times> int" where
  "dt_key t = (year t, month t, day t, hour t, minute t, second t, microsecond t)"

definition dt_le :: "datetime \<Rightarrow> datetime \<Rightarrow> bool" where
  "dt_le a b = (dt_key a \<le> dt_key b)"

definition dt_less :: "datetime \<Rightarrow> datetime \<Rightarrow> bool" where
  "dt_less a b = (dt_key a < dt_key b)"

text \<open>\<^verbatim>\<open>strftime('%a')\<close> in the C locale.\<close>

definition day_abbr :: "string list" where
  "day_abbr = [''Mon'', ''Tue'', ''Wed'', ''Thu'', ''Fri'', ''Sat'', ''Sun'']"

definition strftime_a :: "'a date_scheme \<Rightarrow> string" where
  "strftime_a d = day_abbr ! nat (weekday d)"

text \<open>
  A loop that appends one result per iteration and stops at the first exception.
\<close>

fun collect :: "(py_error + 'a) list \<Rightarrow> py_error + 'a list" where
  "collect [] = Inr []"
| "collect (r # rs) =
     (case r of
        Inl e \<Rightarrow> Inl e
      | Inr x \<Rightarrow> (case collect rs of Inl e \<Rightarrow> Inl e | Inr xs \<Rightarrow> Inr (x # xs)))"

subsection \<open>Floating point\<close>

text \<open>
  Python's \<^verbatim>\<open>float\<close> is the IEEE 754 binary64 format.  A finite float is a rational
  number; each arithmetic operation returns the exact result rounded to the nearest
  number with a 53-bit significand, ties to the even significand (\<open>round_double\<close>;
  overflow and subnormal numbers are out of reach of the temperatures computed here and
  are not modelled).  \<^verbatim>\<open>round(x)\<close> of a float rounds to the nearest integer, ties to the
  even integer.
\<close>

definition pow2 :: "int \<Rightarrow> rat" where
  "pow2 e = (if 0 \<le> e then 2 ^ nat e else 1 / 2 ^ nat (- e))"

definition round_half_even :: "rat \<Rightarrow> int" where
  "round_half_even x =
     (let f = \<lfloor>x\<rfloor>; r = x - of_int f
      in if r < 1 / 2 then f else if 1 / 2 < r then f + 1 else if even f then f else f + 1)"

text \<open>The exponent \<open>e\<close> with \<open>2 ^ e \<le> |x| < 2 ^ (e + 1)\<close>, for \<open>x \<noteq> 0\<close>.\<close>

definition binade :: "rat \<Rightarrow> int" where
  "binade x =
     (let k = bitlen \<bar>fst (quotient_of x)\<bar> - bitlen (snd (quotient_of x))
      in if pow2 k \<le> \<bar>x\<bar> then k else k - 1)"

definition round_double :: "rat \<Rightarrow> rat" where
  "round_double x =
     (if x = 0 then 0
      else let ulp = pow2 (binade x - 52) in of_int (round_half_even (x / ulp)) * ulp)"

definition fl_add :: "rat \<Rightarrow> rat \<Rightarrow> rat" where
  "fl_add a b = round_double (a + b)"

definition fl_sub :: "rat \<Rightarrow> rat \<Rightarrow> rat" where
  "fl_sub a b = round_double (a - b)"

definition fl_mul :: "rat \<Rightarrow> rat \<Rightarrow> rat" where
  "fl_mul a b = round_double (a * b)"

definition fl_div :: "rat \<Rightarrow> rat \<Rightarrow> rat" where
  "fl_div a b = round_double (a / b)"

subsection \<open>get_mock_weather\<close>

record condition_template =
  condition :: string
  icon :: string
  temp_range :: "int \<times> int"

definition conditions :: "condition_template list" where
  "conditions =
     [\<lparr>condition = ''Sunny'', icon = ''sun'', temp_range = (22, 32)\<rparr>,
      \<lparr>condition = ''Partly Cloudy'', icon = ''cloud-sun'', temp_range = (20, 28)\<rparr>,
      \<lparr>condition = ''Cloudy'', icon = ''cloud'', temp_range = (18, 25)\<rparr>,
      \<lparr>condition = ''Light Rain'', icon = ''cloud-rain'', temp_range = (16, 22)\<rparr>,
      \<lparr>condition = ''Clear'', icon = ''moon-stars'', temp_range = (18, 26)\<rparr>]"

record forecast_day =
  f_day :: string
  f_high :: int
  f_low :: int
  f_icon :: string

record weather =
  w_location :: string
  w_temperature :: int
  w_condition :: string
  w_icon :: string
  w_humidity :: int
  w_wind :: int
  w_forecast :: "forecast_day list"

text \<open>
  \<^verbatim>\<open>temp_min + (temp_max - temp_min) * (0.5 + 0.5 * (1 - abs(14 - hour) / 14))\<close>: the
  integers are exact as floats, \<^verbatim>\<open>/\<close> is the correctly rounded true division, and every
  other operation is a float operation.
\<close>

definition float_factor :: "int \<Rightarrow> rat" where
  "float_factor h = fl_add (1 / 2) (fl_mul (1 / 2) (fl_sub 1 (fl_div (of_int \<bar>14 - h\<bar>) 14)))"

definition float_temp :: "int \<Rightarrow> int \<Rightarrow> int \<Rightarrow> rat" where
  "float_temp temp_min temp_max h =
     fl_add (of_int temp_min) (fl_mul (of_int (temp_max - temp_min)) (float_factor h))"

text \<open>
  The function reads the clock and the random generator several times.  \<open>now k\<close> is
  the value of the \<open>k\<close>-th call of \<^verbatim>\<open>datetime.now()\<close> (call 0 for the day, call 1 for
  the hour, call \<open>2 + i\<close> in iteration \<open>i\<close> of the forecast loop) and \<open>rnd k\<close> the value
  of the \<open>k\<close>-th call of \<^verbatim>\<open>random.randint\<close> (calls \<open>2 * i\<close> and \<open>2 * i + 1\<close> for the high
  and the low of iteration \<open>i\<close>, then call 10 for the humidity and call 11 for the wind).
\<close>

definition forecast_entry ::
  "(nat \<Rightarrow> datetime) \<Rightarrow> (nat \<Rightarrow> int) \<Rightarrow> int \<Rightarrow> nat \<Rightarrow> py_error + forecast_day" where
  "forecast_entry now rnd day_index i =
     (let day_condition = conditions ! nat ((day_index + int i) mod int (length conditions))
      in case plus_days (now (2 + i)) i of
           Inl e \<Rightarrow> Inl e
         | Inr d \<Rightarrow>
             Inr \<lparr>f_day = strftime_a d,
                  f_high = snd (temp_range day_condition) + rnd (2 * i),
                  f_low = fst (temp_range day_condition) + rnd (2 * i + 1),
                  f_icon = icon day_condition\<rparr>)"

definition get_mock_weather :: "(nat \<Rightarrow> datetime) \<Rightarrow> (nat \<Rightarrow> int) \<Rightarrow> py_error + weather" where
  "get_mock_weather now rnd =
     (let day_index = day (now 0) mod int (length conditions);
          weather = conditions ! nat day_index;
          temp_min = fst (temp_range weather);
          temp_max = snd (temp_range weather);
          h = hour (now 1);
          temp = float_temp temp_min temp_max h
      in case collect (map (forecast_entry now rnd day_index) [0..<5]) of
           Inl e \<Rightarrow> Inl e
         | Inr forecast \<Rightarrow>
             Inr \<lparr>w_location = ''Shenzhen, China'',
                  w_temperature = round_half_even temp,
                  w_condition = condition weather,
                  w_icon = icon weather,
                  w_humidity = 50 + rnd 10,
                  w_wind = 5 + rnd 11,
                  w_forecast = forecast\<rparr>)"

text \<open>
  The formula of the specification over the rationals, and what it means for an integer
  to be the value rounded to the nearest integer.
\<close>

definition spec_factor :: "int \<Rightarrow> rat" where
  "spec_factor h = 1 / 2 + 1 / 2 * (1 - of_int \<bar>14 - h\<bar> / 14)"

definition spec_temp :: "int \<Rightarrow> int \<Rightarrow> int \<Rightarrow> rat" where
  "spec_temp temp_min temp_max h =
     of_int temp_min + of_int (temp_max - temp_min) * spec_factor h"

text \<open>The temperature range of the condition selected for a day of the month.\<close>

definition selected_range :: "int \<Rightarrow> int \<times> int" where
  "selected_range d = temp_range (conditions ! nat (d mod int (length conditions)))"


subsection \<open>The calendar module and calendar_page\<close>

definition isleap :: "int \<Rightarrow> bool" where
  "isleap y = (y mod 4 = 0 \<and> (y mod 100 \<noteq> 0 \<or> y mod 400 = 0))"

definition mdays :: "int list" where
  "mdays = [0, 31, 28, 31, 30, 31, 30, 31, 31, 30, 31, 30, 31]"

text \<open>
  \<^verbatim>\<open>calendar.weekday\<close>: a year outside MINYEAR..MAXYEAR is replaced by a year of the same
  place in the 400-year cycle.
\<close>

definition calendar_weekday :: "int \<Rightarrow> int \<Rightarrow> int \<Rightarrow> py_error + int" where
  "calendar_weekday y m d =
     (let y' = (if MINYEAR \<le> y \<and> y \<le> MAXYEAR then y else 2000 + y mod 400)
      in case new_date y' m d of Inl e \<Rightarrow> Inl e | Inr dt \<Rightarrow> Inr (weekday dt))"

definition monthrange :: "int \<Rightarrow> int \<Rightarrow> py_error + int \<times> int" where
  "monthrange y m =
     (if 1 \<le> m \<and> m \<le> 12
      then (case calendar_weekday y m 1 of
              Inl e \<Rightarrow> Inl e
            | Inr day1 \<Rightarrow> Inr (day1, mdays ! nat m + (if m = 2 \<and> isleap y then 1 else 0)))
      else Inl IllegalMonthError)"

text \<open>
  \<^verbatim>\<open>Calendar.itermonthdays\<close>: zeros for the days of the first week before the month, the
  days of the month, zeros for the days of the last week after it.
\<close>

definition itermonthdays :: "int \<Rightarrow> int \<Rightarrow> int \<Rightarrow> py_error + int list" where
  "itermonthdays firstweekday y m =
     (case monthrange y m of
        Inl e \<Rightarrow> Inl e
      | Inr (day1, ndays) \<Rightarrow>
          (let days_before = (day1 - firstweekday) mod 7;
               days_after = (firstweekday - day1 - ndays) mod 7
           in Inr (replicate (nat days_before) 0 @ [1..ndays] @ replicate (nat days_after) 0)))"

text \<open>\<^verbatim>\<open>[days[i:i+7] for i in range(0, len(days), 7)]\<close>\<close>

definition monthdayscalendar :: "int \<Rightarrow> int \<Rightarrow> int \<Rightarrow> py_error + int list list" where
  "monthdayscalendar firstweekday y m =
     (case itermonthdays firstweekday y m of
        Inl e \<Rightarrow> Inl e
      | Inr days \<Rightarrow>
          Inr (map (\<lambda>k. take 7 (drop (7 * k) days)) [0..<(length days + 6) div 7]))"

definition month_name :: "string list" where
  "month_name =
     ['''', ''January'', ''February'', ''March'', ''April'', ''May'', ''June'', ''July'',
      ''August'', ''September'', ''October'', ''November'', ''December'']"

text \<open>The "month overflow" branch at the head of calendar_page.\<close>

definition handle_month_overflow :: "int \<Rightarrow> int \<Rightarrow> int \<times> int" where
  "handle_month_overflow y m =
     (if m > 12 then (y + 1, 1) else if m < 1 then (y - 1, 12) else (y, m))"

record calendar_view =
  cv_year :: int
  cv_month :: int
  cv_month_name :: string
  cv_month_days :: "int list list"
  cv_first_day :: date
  cv_last_day :: date

text \<open>
  calendar_page, from the two query parameters to the values handed to the template.
  The query of the events between \<open>first_day\<close> and \<open>last_day\<close> and their grouping by date
  raise nothing and change none of the values below; they are left out.
\<close>

definition calendar_page :: "int \<Rightarrow> int \<Rightarrow> py_error + calendar_view" where
  "calendar_page year0 month0 =
     (case handle_month_overflow year0 month0 of (y, m) \<Rightarrow>
      case monthdayscalendar 6 y m of
        Inl e \<Rightarrow> Inl e
      | Inr month_days \<Rightarrow>
      case new_datetime y m 1 of
        Inl e \<Rightarrow> Inl e
      | Inr first_dt \<Rightarrow>
      case (if m = 12 then new_datetime (y + 1) 1 1 else new_datetime y (m + 1) 1) of
        Inl e \<Rightarrow> Inl e
      | Inr following \<Rightarrow>
      case prev_day (date_of following) of
        Inl e \<Rightarrow> Inl e
      | Inr last_day \<Rightarrow>
          Inr \<lparr>cv_year = y, cv_month = m, cv_month_name = month_name ! nat m,
               cv_month_days = month_days, cv_first_day = date_of first_dt, cv_last_day = last_day\<rparr>)"

text \<open>The cells of a month grid that are not padding, in reading order.\<close>

definition non_padding :: "int list list \<Rightarrow> int list" where
  "non_padding grid = filter (\<lambda>d. d \<noteq> 0) (concat grid)"

subsection \<open>Pomodoro sessions and the productivity figures\<close>

record PomodoroSession =
  session_id :: int
  duration :: int
  session_completed :: bool
  session_created_at :: datetime

text \<open>\<^verbatim>\<open>now.replace(hour=0, minute=0, second=0, microsecond=0)\<close>\<close>

definition today_start :: "datetime \<Rightarrow> datetime" where
  "today_start now = now\<lparr>hour := 0, minute := 0, second := 0, microsecond := 0\<rparr>"

text \<open>
  The count of today's sessions of the dashboard; \<open>now\<close> is the value of the call of
  \<^verbatim>\<open>datetime.now()\<close> in the filter.  The dashboard replaces hour, minute and second only.
\<close>

definition dashboard_today_sessions :: "datetime \<Rightarrow> PomodoroSession list \<Rightarrow> nat" where
  "dashboard_today_sessions now sessions =
     length (filter (\<lambda>s. dt_le (now\<lparr>hour := 0, minute := 0, second := 0\<rparr>) (session_created_at s))
               sessions)"

definition total_sessions :: "PomodoroSession list \<Rightarrow> nat" where
  "total_sessions sessions = length sessions"

text \<open>
  An INTEGER of the database is a signed 64-bit integer.  \<^verbatim>\<open>sum(duration)\<close> adds the
  values in the order of the rows, and the query ends with OperationalError ("integer
  overflow") when the running sum leaves the 64-bit range.  The sum of no rows is NULL,
  for which \<^verbatim>\<open>or 0\<close> gives 0.
\<close>

definition sqlite_integer :: "int \<Rightarrow> bool" where
  "sqlite_integer n = (- (2 ^ 63) \<le> n \<and> n < 2 ^ 63)"

fun sqlite_sum :: "int \<Rightarrow> int list \<Rightarrow> py_error + int" where
  "sqlite_sum acc [] = Inr acc"
| "sqlite_sum acc (v # vs) =
     (if sqlite_integer (acc + v) then sqlite_sum (acc + v) vs else Inl OperationalError)"

definition total_minutes :: "PomodoroSession list \<Rightarrow> py_error + int" where
  "total_minutes sessions = sqlite_sum 0 (map duration sessions)"

text \<open>
  The pomodoro page and the statistics endpoint compute the same three figures, each
  with one call of \<^verbatim>\<open>datetime.now()\<close>, \<open>now\<close>.
\<close>

record pomodoro_stats =
  stats_today_sessions :: nat
  stats_total_sessions :: nat
  stats_total_hours :: int

definition pomodoro :: "datetime \<Rightarrow> PomodoroSession list \<Rightarrow> py_error + pomodoro_stats" where
  "pomodoro now sessions =
     (let today_sessions =
            length (filter (\<lambda>s. dt_le (today_start now) (session_created_at s)) sessions)
      in case total_minutes sessions of
           Inl e \<Rightarrow> Inl e
         | Inr minutes \<Rightarrow>
             Inr \<lparr>stats_today_sessions = today_sessions,
                  stats_total_sessions = total_sessions sessions,
                  stats_total_hours = minutes div 60\<rparr>)"

definition get_pomodoro_stats ::
  "datetime \<Rightarrow> PomodoroSession list \<Rightarrow> py_error + pomodoro_stats" where
  "get_pomodoro_stats now sessions =
     (let today_sessions =
            length (filter (\<lambda>s. dt_le (today_start now) (session_created_at s)) sessions)
      in case total_minutes sessions of
           Inl e \<Rightarrow> Inl e
         | Inr minutes \<Rightarrow>
             Inr \<lparr>stats_today_sessions = today_sessions,
                  stats_total_sessions = total_sessions sessions,
                  stats_total_hours = minutes div 60\<rparr>)"

text \<open>
  The weekly chart of the dashboard.  Iteration \<open>i\<close> of the loop reads the clock once,
  \<open>now i\<close>; both \<^verbatim>\<open>timedelta\<close> operations can raise OverflowError.
\<close>

definition weekly_entry ::
  "datetime \<Rightarrow> nat \<Rightarrow> PomodoroSession list \<Rightarrow> py_error + string \<times> nat" where
  "weekly_entry now_i i sessions =
     (case minus_days now_i (6 - i) of
        Inl e \<Rightarrow> Inl e
      | Inr d \<Rightarrow>
          (let day_start = d\<lparr>hour := 0, minute := 0, second := 0, microsecond := 0\<rparr>
           in case plus_days day_start 1 of
                Inl e \<Rightarrow> Inl e
              | Inr day_end \<Rightarrow>
                  Inr (strftime_a d,
                       length (filter (\<lambda>s. dt_le day_start (session_created_at s)
                                           \<and> dt_less (session_created_at s) day_end)
                                 sessions))))"

definition weekly_data ::
  "(nat \<Rightarrow> datetime) \<Rightarrow> PomodoroSession list \<Rightarrow> py_error + (string \<times> nat) list" where
  "weekly_data now sessions = collect (map (\<lambda>i. weekly_entry (now i) i sessions) [0..<7])"

text \<open>
  The windows of the specification: today is \<open>[midnight, midnight + 1 day)\<close>, the
  trailing week is \<open>[midnight - 6 days, midnight + 1 day)\<close>.
\<close>

definition in_window :: "datetime \<Rightarrow> datetime \<Rightarrow> PomodoroSession \<Rightarrow> bool" where
  "in_window lo hi s = (dt_le lo (session_created_at s) \<and> dt_less (session_created_at s) hi)"

definition spec_today_count :: "datetime \<Rightarrow> PomodoroSession list \<Rightarrow> py_error + nat" where
  "spec_today_count now sessions =
     (case plus_days (today_start now) 1 of
        Inl e \<Rightarrow> Inl e
      | Inr tomorrow \<Rightarrow> Inr (length (filter (in_window (today_start now) tomorrow) sessions)))"

subsection \<open>The database and the create handlers\<close>

record Todo =
  todo_id :: int
  task :: string
  todo_completed :: bool
  todo_created_at :: datetime

record Note =
  note_id :: int
  note_title :: string
  content :: "string option"
  note_color :: string
  note_created_at :: datetime
  updated_at :: datetime

record Event =
  event_id :: int
  event_title :: string
  description :: "string option"
  event_date :: date
  event_time :: string
  event_color :: string
  event_created_at :: datetime

text \<open>The tables, each in the order of insertion.\<close>

record store =
  todo_rows :: "Todo list"
  note_rows :: "Note list"
  event_rows :: "Event list"
  session_rows :: "PomodoroSession list"

text \<open>An integer primary key of a new row: one more than the largest key of the table.\<close>

definition next_id :: "int list \<Rightarrow> int" where
  "next_id ids = fold max ids 0 + 1"

text \<open>
  The JSON body of a request is a dictionary; \<^verbatim>\<open>data.get(key, default)\<close>.  The values
  of the text fields are strings, the value of \<^verbatim>\<open>duration\<close> is an integer.
\<close>

definition dict_get :: "(string \<rightharpoonup> 'v) \<Rightarrow> string \<Rightarrow> 'v \<Rightarrow> 'v" where
  "dict_get data k dflt = (case data k of None \<Rightarrow> dflt | Some v \<Rightarrow> v)"










subsection \<open>Notes\<close>

text \<open>
  add_note: \<^verbatim>\<open>created_at\<close> and \<^verbatim>\<open>updated_at\<close> are filled by their column defaults when
  the row is inserted, each by a call of \<^verbatim>\<open>datetime.utcnow\<close> of its own, in the order of
  the columns: \<open>t_created\<close> is read first, \<open>t_updated\<close> second.
\<close>

definition add_note ::
  "store \<Rightarrow> (string \<rightharpoonup> string) \<Rightarrow> datetime \<Rightarrow> datetime \<Rightarrow> (py_error + Note) \<times> store" where
  "add_note db data t_created t_updated =
     (let n = \<lparr>note_id = next_id (map note_id (note_rows db)),
               note_title = dict_get data ''title'' ''Untitled'',
               content = Some (dict_get data ''content'' []),
               note_color = dict_get data ''color'' ''primary'',
               note_created_at = t_created,
               updated_at = t_updated\<rparr>
      in (Inr n, db\<lparr>note_rows := note_rows db @ [n]\<rparr>))"

text \<open>
  update_note: \<^verbatim>\<open>get_or_404\<close> ends the request with the 404 response when no note has
  the id; otherwise the fields present in the body are assigned and \<^verbatim>\<open>updated_at\<close> is
  assigned \<open>utcnow\<close>, the value of the handler's call of \<^verbatim>\<open>datetime.utcnow()\<close>.

  At the commit the columns whose value has changed are written.  When \<open>utcnow\<close> is the
  value \<^verbatim>\<open>updated_at\<close> already has, that column is not among them; if another column is,
  the row is written and the \<^verbatim>\<open>onupdate\<close> of \<^verbatim>\<open>updated_at\<close> fills it by a call of
  \<^verbatim>\<open>datetime.utcnow\<close> of its own, whose value is \<open>t_onupdate\<close>.
\<close>

definition assign_fields :: "Note \<Rightarrow> (string \<rightharpoonup> string) \<Rightarrow> Note" where
  "assign_fields n data =
     (let n1 = (case data ''title'' of None \<Rightarrow> n | Some v \<Rightarrow> n\<lparr>note_title := v\<rparr>);
          n2 = (case data ''content'' of None \<Rightarrow> n1 | Some v \<Rightarrow> n1\<lparr>content := Some v\<rparr>)
      in (case data ''color'' of None \<Rightarrow> n2 | Some v \<Rightarrow> n2\<lparr>note_color := v\<rparr>))"

definition onupdate_fires :: "Note \<Rightarrow> (string \<rightharpoonup> string) \<Rightarrow> datetime \<Rightarrow> bool" where
  "onupdate_fires n data utcnow = (utcnow = updated_at n \<and> assign_fields n data \<noteq> n)"

definition update_note ::
  "store \<Rightarrow> int \<Rightarrow> (string \<rightharpoonup> string) \<Rightarrow> datetime \<Rightarrow> datetime
     \<Rightarrow> (py_error + Note) \<times> store" where
  "update_note db nid data utcnow t_onupdate =
     (case find (\<lambda>n. note_id n = nid) (note_rows db) of
        None \<Rightarrow> (Inl NotFound, db)
      | Some n \<Rightarrow>
          (let n3 = assign_fields n data;
               n4 = n3\<lparr>updated_at := (if onupdate_fires n data utcnow then t_onupdate else utcnow)\<rparr>
           in (Inr n4, db\<lparr>note_rows := map (\<lambda>x. if note_id x = nid then n4 else x) (note_rows db)\<rparr>)))"

definition delete_note :: "store \<Rightarrow> int \<Rightarrow> (py_error + unit) \<times> store" where
  "delete_note db nid =
     (case find (\<lambda>n. note_id n = nid) (note_rows db) of
        None \<Rightarrow> (Inl NotFound, db)
      | Some n \<Rightarrow> (Inr (), db\<lparr>note_rows := filter (\<lambda>x. note_id x \<noteq> nid) (note_rows db)\<rparr>))"

text \<open>
  The life of the notes table: a sequence of requests, each with the values that the
  clock gives to its calls of \<^verbatim>\<open>datetime.utcnow\<close>, in the order of the calls.
\<close>

datatype note_request =
    AddNote "string \<rightharpoonup> string" datetime datetime
  | UpdateNote int "string \<rightharpoonup> string" datetime datetime
  | DeleteNote int

fun serve :: "store \<Rightarrow> note_request \<Rightarrow> store" where
  "serve db (AddNote data t_created t_updated) = snd (add_note db data t_created t_updated)"
| "serve db (UpdateNote nid data utcnow t_onupdate) = snd (update_note db nid data utcnow t_onupdate)"
| "serve db (DeleteNote nid) = snd (delete_note db nid)"

text \<open>
  The clock values a request reads when it is served in a database: an update of a note
  that does not exist reads none, and the second value of an update is read only when
  the \<^verbatim>\<open>onupdate\<close> is called.
\<close>

fun clock_reads :: "store \<Rightarrow> note_request \<Rightarrow> datetime list" where
  "clock_reads db (AddNote data t_created t_updated) = [t_created, t_updated]"
| "clock_reads db (UpdateNote nid data utcnow t_onupdate) =
     (case find (\<lambda>n. note_id n = nid) (note_rows db) of
        None \<Rightarrow> []
      | Some n \<Rightarrow> if onupdate_fires n data utcnow then [utcnow, t_onupdate] else [utcnow])"
| "clock_reads db (DeleteNote nid) = []"

definition serve_all :: "store \<Rightarrow> note_request list \<Rightarrow> store" where
  "serve_all db reqs = foldl serve db reqs"

fun all_reads :: "store \<Rightarrow> note_request list \<Rightarrow> datetime list" where
  "all_reads db [] = []"
| "all_reads db (r # rs) = clock_reads db r @ all_reads (serve db r) rs"

text \<open>The clock never steps back: the values read are in non-decreasing order.\<close>

definition clock_monotone :: "store \<Rightarrow> note_request list \<Rightarrow> bool" where
  "clock_monotone db reqs = sorted_wrt dt_le (all_reads db reqs)"

text \<open>
  The invariant of a stored note, with the clock values still to be read: the note was
  not updated before it was created, nor after any of the reads to come.
\<close>

definition note_ok :: "datetime list \<Rightarrow> Note \<Rightarrow> bool" where
  "note_ok later n =
     (dt_le (note_created_at n) (updated_at n) \<and> list_all (dt_le (updated_at n)) later)"

definition empty_store :: store where
  "empty_store = \<lparr>todo_rows = [], note_rows = [], event_rows = [], session_rows = []\<rparr>"

subsection \<open>Export: the content and description fields of the CSV rows\<close>

text \<open>
  \<^verbatim>\<open>s.replace(old, new)\<close> for one-character \<^verbatim>\<open>old\<close> and \<^verbatim>\<open>new\<close>: every occurrence is replaced.
\<close>

definition py_replace :: "char \<Rightarrow> char \<Rightarrow> string \<Rightarrow> string" where
  "py_replace old new s = map (\<lambda>c. if c = old then new else c) s"

definition LF :: char where
  "LF = CHR 0x0A"

definition CR :: char where
  "CR = CHR 0x0D"

text \<open>
  \<^verbatim>\<open>note.content.replace('\n', ' ').replace('\r', ' ') if note.content else ''\<close>
  (export_notes_csv), and the same expression over \<^verbatim>\<open>event.description\<close>
  (export_calendar_csv).  Both columns are nullable; \<open>None\<close> and the empty string are
  the falsy values.
\<close>

definition export_text :: "string option \<Rightarrow> string" where
  "export_text txt =
     (case txt of
        None \<Rightarrow> []
      | Some s \<Rightarrow> if s = [] then [] else py_replace CR (CHR '' '') (py_replace LF (CHR '' '') s))"

text \<open>The third field of a row of export_notes_csv and of export_calendar_csv.\<close>

definition export_note_content :: "Note \<Rightarrow> string" where
  "export_note_content n = export_text (content n)"

definition export_event_description :: "Event \<Rightarrow> string" where
  "export_event_description ev = export_text (description ev)"

text \<open>
  The encoding of one text field by \<^verbatim>\<open>csv.writer\<close> in its default dialect
  (\<^verbatim>\<open>excel\<close>, \<^verbatim>\<open>QUOTE_MINIMAL\<close>): a field holding the delimiter, the quote character or
  a character of the line terminator is written between quotes, with every quote
  character doubled; any other field is written as it is.
\<close>

definition csv_needs_quotes :: "string \<Rightarrow> bool" where
  "csv_needs_quotes s =
     (CHR '','' \<in> set s \<or> CHR 0x22 \<in> set s \<or> CR \<in> set s \<or> LF \<in> set s)"

definition csv_field :: "string \<Rightarrow> string" where
  "csv_field s =
     (if csv_needs_quotes s
      then [CHR 0x22] @ concat (map (\<lambda>c. if c = CHR 0x22 then [c, c] else [c]) s) @ [CHR 0x22]
      else s)"

subsection \<open>Example values\<close>

definition example_now :: datetime where
  "example_now =
     \<lparr>year = 2024, month = 6, day = 10, hour = 15, minute = 0, second = 0, microsecond = 0\<rparr>"

definition example_note_requests :: "note_request list" where
  "example_note_requests =
     [AddNote [''title'' \<mapsto> ''Ideas''] example_now (example_now\<lparr>microsecond := 7\<rparr>),
      UpdateNote 1 [''content'' \<mapsto> ''dark mode''] (example_now\<lparr>hour := 16\<rparr>)
        (example_now\<lparr>hour := 16, second := 1\<rparr>),
      UpdateNote 1 [''content'' \<mapsto> ''light mode''] (example_now\<lparr>hour := 16\<rparr>)
        (example_now\<lparr>hour := 16, second := 2\<rparr>),
      AddNote Map.empty (example_now\<lparr>hour := 17\<rparr>) (example_now\<lparr>hour := 17\<rparr>),
      DeleteNote 2,
      UpdateNote 1 Map.empty (example_now\<lparr>day := 11\<rparr>) (example_now\<lparr>day := 12\<rparr>)]"

text \<open>
  Two invocations of get_mock_weather within one hour: the clock advances by a minute
  from one read to the next, and the random generator returns different values.
\<close>

definition example_clock :: "nat \<Rightarrow> datetime" where
  "example_clock k = example_now\<lparr>minute := int k\<rparr>"

definition example_clock' :: "nat \<Rightarrow> datetime" where
  "example_clock' k = example_now\<lparr>minute := 30 + int k\<rparr>"

definition example_rnd :: "nat \<Rightarrow> int" where
  "example_rnd k = 0"

definition example_rnd' :: "nat \<Rightarrow> int" where
  "example_rnd' k = (if k = 10 then 30 else if k = 11 then 15 else 2)"

definition example_weather :: weather where
  "example_weather =
     \<lparr>w_location = ''Shenzhen, China'', w_temperature = 32, w_condition = ''Sunny'',
      w_icon = ''sun'', w_humidity = 50, w_wind = 5,
      w_forecast =
        [\<lparr>f_day = ''Mon'', f_high = 32, f_low = 22, f_icon = ''sun''\<rparr>,
         \<lparr>f_day = ''Tue'', f_high = 28, f_low = 20, f_icon = ''cloud-sun''\<rparr>,
         \<lparr>f_day = ''Wed'', f_high = 25, f_low = 18, f_icon = ''cloud''\<rparr>,
         \<lparr>f_day = ''Thu'', f_high = 22, f_low = 16, f_icon = ''cloud-rain''\<rparr>,
         \<lparr>f_day = ''Fri'', f_high = 26, f_low = 18, f_icon = ''moon-stars''\<rparr>]\<rparr>"

definition example_weather' :: weather where
  "example_weather' =
     \<lparr>w_location = ''Shenzhen, China'', w_temperature = 32, w_condition = ''Sunny'',
      w_icon = ''sun'', w_humidity = 80, w_wind = 20,
      w_forecast =
        [\<lparr>f_day = ''Mon'', f_high = 34, f_low = 24, f_icon = ''sun''\<rparr>,
         \<lparr>f_day = ''Tue'', f_high = 30, f_low = 22, f_icon = ''cloud-sun''\<rparr>,
         \<lparr>f_day = ''Wed'', f_high = 27, f_low = 20, f_icon = ''cloud''\<rparr>,
         \<lparr>f_day = ''Thu'', f_high = 24, f_low = 18, f_icon = ''cloud-rain''\<rparr>,
         \<lparr>f_day = ''Fri'', f_high = 28, f_low = 20, f_icon = ''moon-stars''\<rparr>]\<rparr>"

text \<open>
  Sessions of the example of the specification (10 June 2024 at 09:00, 3 June 2024 at
  09:00), one created at the midnight that begins 10 June and one at the midnight that
  ends it.
\<close>

definition example_session_tomorrow :: PomodoroSession where
  "example_session_tomorrow =
     \<lparr>session_id = 3, duration = 25, session_completed = True,
      session_created_at = example_now\<lparr>day := 11, hour := 0\<rparr>\<rparr>"

definition example_session_midnight :: PomodoroSession where
  "example_session_midnight =
     \<lparr>session_id = 4, duration = 25, session_completed = True,
      session_created_at = example_now\<lparr>hour := 0\<rparr>\<rparr>"

definition example_sessions :: "PomodoroSession list" where
  "example_sessions =
     [\<lparr>session_id = 1, duration = 25, session_completed = True,
       session_created_at = example_now\<lparr>hour := 9\<rparr>\<rparr>,
      \<lparr>session_id = 2, duration = 50, session_completed = True,
       session_created_at = example_now\<lparr>day := 3, hour := 9\<rparr>\<rparr>,
      example_session_tomorrow]"


text \<open>
  Two invocations made in the last second of 10 June 2024: all clock reads of the first
  give 23:59:59; the first read of the second gives 23:59:59.999999, and its later reads
  fall after midnight.
\<close>

definition example_clock_late :: "nat \<Rightarrow> datetime" where
  "example_clock_late k = example_now\<lparr>hour := 23, minute := 59, second := 59\<rparr>"

definition example_clock_midnight :: "nat \<Rightarrow> datetime" where
  "example_clock_midnight k =
     (if k = 0 then example_now\<lparr>hour := 23, minute := 59, second := 59, microsecond := 999999\<rparr>
      else example_now\<lparr>day := 11, hour := 0, microsecond := int k\<rparr>)"

section \<open>Properties\<close>

subsection \<open>Export: line breaks\<close>

lemma py_replace_removes: "old \<noteq> new \<Longrightarrow> old \<notin> set (py_replace old new s)"
  by (auto simp: py_replace_def)

lemma py_replace_keeps_absent: "c \<notin> set s \<Longrightarrow> c \<noteq> new \<Longrightarrow> c \<notin> set (py_replace old new s)"
  by (auto simp: py_replace_def)

lemma export_text_eq:
  "export_text (Some s) = map (\<lambda>c. if c = CR \<or> c = LF then CHR '' '' else c) s"
  by (auto simp: export_text_def py_replace_def CR_def LF_def)

lemma export_text_no_break: "CR \<notin> set (export_text c) \<and> LF \<notin> set (export_text c)"
proof (cases c)
  case None
  then show ?thesis by (simp add: export_text_def)
next
  case (Some s)
  have "CR \<notin> (\<lambda>c. if c = CR \<or> c = LF then CHR '' '' else c) ` set s"
    by (auto simp: CR_def LF_def)
  moreover have "LF \<notin> (\<lambda>c. if c = CR \<or> c = LF then CHR '' '' else c) ` set s"
    by (auto simp: CR_def LF_def)
  ultimately show ?thesis
    unfolding Some export_text_eq by simp
qed

lemma csv_field_set: "set (csv_field s) \<subseteq> insert (CHR 0x22) (set s)"
  by (auto simp: csv_field_def split: if_splits)

text \<open>
  C8.  For every note and every event, the exported content (description) field is the
  stored text with each CR and each LF replaced by one space; neither the field nor its
  CSV encoding holds a CR or an LF; and a note whose content is "line1", LF, "line2" is
  exported with the content field "line1 line2".
\<close>

theorem export_replaces_line_breaks:
  "export_note_content (n\<lparr>content := Some s\<rparr>)
     = map (\<lambda>c. if c = CR \<or> c = LF then CHR '' '' else c) s
   \<and> export_event_description (ev\<lparr>description := Some s\<rparr>)
     = map (\<lambda>c. if c = CR \<or> c = LF then CHR '' '' else c) s
   \<and> CR \<notin> set (export_note_content n) \<and> LF \<notin> set (export_note_content n)
   \<and> CR \<notin> set (export_event_description ev) \<and> LF \<notin> set (export_event_description ev)
   \<and> CR \<notin> set (csv_field (export_note_content n))
   \<and> LF \<notin> set (csv_field (export_note_content n))
   \<and> CR \<notin> set (csv_field (export_event_description ev))
   \<and> LF \<notin> set (csv_field (export_event_description ev))
   \<and> export_note_content (n\<lparr>content := Some (''line1'' @ [LF] @ ''line2'')\<rparr>) = ''line1 line2''
   \<and> csv_field (export_note_content (n\<lparr>content := Some (''line1'' @ [LF] @ ''line2'')\<rparr>))
     = ''line1 line2''"
proof -
  have q: "CR \<noteq> CHR 0x22" "LF \<noteq> CHR 0x22"
    by (simp_all add: CR_def LF_def)
  have enc: "CR \<notin> set (csv_field (export_text c)) \<and> LF \<notin> set (csv_field (export_text c))" for c
    using csv_field_set [of "export_text c"] export_text_no_break [of c] q by auto
  have ex: "export_text (Some (''line1'' @ [LF] @ ''line2'')) = ''line1 line2''"
    by (simp add: export_text_def py_replace_def CR_def LF_def)
  have exq: "csv_field ''line1 line2'' = ''line1 line2''"
    by (simp add: csv_field_def csv_needs_quotes_def CR_def LF_def)
  show ?thesis
    unfolding export_note_content_def export_event_description_def
    using export_text_eq [of s] export_text_no_break [of "content n"]
      export_text_no_break [of "description ev"] enc [of "content n"] enc [of "description ev"]
      ex exq
    by simp
qed

subsection \<open>Create requests with invalid input\<close>















subsection \<open>Notes: updated_at and created_at\<close>

lemma dt_le_trans: "dt_le a b \<Longrightarrow> dt_le b c \<Longrightarrow> dt_le a c"
  unfolding dt_le_def by (rule order_trans)

lemma note_ok_Cons: "note_ok (t # later) n \<Longrightarrow> note_ok later n"
  by (simp add: note_ok_def)

lemma note_ok_append: "note_ok (reads @ later) n \<Longrightarrow> note_ok later n"
  by (simp add: note_ok_def)

lemma find_in_set: "find P xs = Some n \<Longrightarrow> n \<in> set xs"
  by (induction xs) (auto split: if_splits)

lemma assign_fields_keeps [simp]:
  "note_id (assign_fields n data) = note_id n"
  "note_created_at (assign_fields n data) = note_created_at n"
  "updated_at (assign_fields n data) = updated_at n"
  by (simp_all add: assign_fields_def Let_def split: option.splits)

lemma update_note_fields:
  assumes "update_note db nid data t t' = (Inr n', db')"
  shows "\<exists>n. find (\<lambda>n. note_id n = nid) (note_rows db) = Some n \<and> note_id n' = nid
           \<and> note_created_at n' = note_created_at n
           \<and> updated_at n' = (if onupdate_fires n data t then t' else t)
           \<and> note_rows db' = map (\<lambda>x. if note_id x = nid then n' else x) (note_rows db)"
proof (cases "find (\<lambda>n. note_id n = nid) (note_rows db)")
  case None
  with assms show ?thesis
    by (simp add: update_note_def)
next
  case (Some n)
  then have "note_id n = nid"
    by (auto simp: find_Some_iff)
  with Some assms show ?thesis
    by (auto simp: update_note_def Let_def)
qed

lemma update_note_not_found: "update_note db nid data t t' = (Inl e, db') \<Longrightarrow> db' = db"
  by (auto simp: update_note_def Let_def split: option.splits)

text \<open>One request keeps the invariant, when the clock does not step back.\<close>

lemma serve_keeps_ok:
  assumes mono: "sorted_wrt dt_le (clock_reads db r @ later)"
    and ok: "\<forall>n \<in> set (note_rows db). note_ok (clock_reads db r @ later) n"
  shows "\<forall>n \<in> set (note_rows (serve db r)). note_ok later n"
proof (cases r)
  case (AddNote data t_created t_updated)
  have new: "note_ok later \<lparr>note_id = i, note_title = a, content = b, note_color = c,
      note_created_at = t_created, updated_at = t_updated\<rparr>" for i a b c
    using mono AddNote by (auto simp: note_ok_def list_all_iff)
  show ?thesis
    using ok new AddNote by (auto simp: add_note_def Let_def dest!: note_ok_Cons)
next
  case (UpdateNote nid data t t')
  from ok have ok': "\<forall>n \<in> set (note_rows db). note_ok later n"
    by (auto dest: note_ok_append)
  show ?thesis
  proof (cases "update_note db nid data t t'")
    case (Pair res db')
    show ?thesis
    proof (cases res)
      case (Inl e)
      with Pair have "db' = db"
        by (auto dest: update_note_not_found)
      with Pair UpdateNote ok' show ?thesis
        by simp
    next
      case (Inr n')
      with Pair obtain n where f: "find (\<lambda>n. note_id n = nid) (note_rows db) = Some n"
        and n: "note_created_at n' = note_created_at n"
        "updated_at n' = (if onupdate_fires n data t then t' else t)"
        "note_rows db' = map (\<lambda>x. if note_id x = nid then n' else x) (note_rows db)"
        using update_note_fields [of db nid data t t' n' db'] by blast
      let ?reads = "if onupdate_fires n data t then [t, t'] else [t]"
      from f UpdateNote have reads: "clock_reads db r = ?reads"
        by simp
      from f have "n \<in> set (note_rows db)"
        by (rule find_in_set)
      with ok have "note_ok (?reads @ later) n"
        unfolding reads by blast
      then have "dt_le (note_created_at n) t"
        by (auto simp: note_ok_def intro: dt_le_trans split: if_splits)
      moreover from mono have "dt_le t (updated_at n')" "list_all (dt_le (updated_at n')) later"
        unfolding reads n(2) by (auto simp: list_all_iff dt_le_def split: if_splits)
      ultimately have "note_ok later n'"
        using n(1) by (auto simp: note_ok_def intro: dt_le_trans)
      with ok' n(3) Pair UpdateNote show ?thesis
        by auto
    qed
  qed
next
  case (DeleteNote nid)
  with ok show ?thesis
    by (auto simp: delete_note_def split: option.splits)
qed

lemma serve_all_keeps_ok:
  "sorted_wrt dt_le (all_reads db reqs @ later) \<Longrightarrow>
   \<forall>n \<in> set (note_rows db). note_ok (all_reads db reqs @ later) n \<Longrightarrow>
   \<forall>n \<in> set (note_rows (serve_all db reqs)). note_ok later n"
proof (induction reqs arbitrary: db)
  case Nil
  then show ?case
    by (simp add: serve_all_def)
next
  case (Cons r reqs)
  have "\<forall>n \<in> set (note_rows (serve db r)). note_ok (all_reads (serve db r) reqs @ later) n"
    using Cons.prems serve_keeps_ok [of db r "all_reads (serve db r) reqs @ later"] by simp
  moreover have "sorted_wrt dt_le (all_reads (serve db r) reqs @ later)"
    using Cons.prems(1) by (simp add: sorted_wrt_append)
  ultimately have "\<forall>n \<in> set (note_rows (serve_all (serve db r) reqs)). note_ok later n"
    by (rule Cons.IH [rotated])
  then show ?case
    by (simp add: serve_all_def)
qed

lemma all_reads_take_drop:
  "all_reads db reqs
     = all_reads db (take k reqs) @ all_reads (serve_all db (take k reqs)) (drop k reqs)"
proof (induction reqs arbitrary: db k)
  case Nil
  show ?case
    by (simp add: serve_all_def)
next
  case (Cons r reqs)
  show ?case
  proof (cases k)
    case 0
    then show ?thesis
      by (simp add: serve_all_def)
  next
    case (Suc j)
    with Cons [of "serve db r" j] show ?thesis
      by (simp add: serve_all_def)
  qed
qed

text \<open>
  C9, as stated, fails when the clock is set back during the life of a note:
  \<^verbatim>\<open>datetime.utcnow\<close> is the wall clock.  A note created while the clock goes from 15:00
  back to 14:00 between the two calls that fill its timestamps is stored with
  \<open>updated_at\<close> before \<open>created_at\<close>, and so is a note updated after such a step.
\<close>

theorem note_clock_set_back_counterexample:
  "note_rows (serve_all empty_store [AddNote Map.empty example_now (example_now\<lparr>hour := 14\<rparr>)])
     = [\<lparr>note_id = 1, note_title = ''Untitled'', content = Some [], note_color = ''primary'',
         note_created_at = example_now, updated_at = example_now\<lparr>hour := 14\<rparr>\<rparr>]
   \<and> note_rows (serve_all empty_store
        [AddNote Map.empty example_now example_now,
         UpdateNote 1 Map.empty (example_now\<lparr>hour := 14\<rparr>) (example_now\<lparr>hour := 14\<rparr>)])
     = [\<lparr>note_id = 1, note_title = ''Untitled'', content = Some [], note_color = ''primary'',
         note_created_at = example_now, updated_at = example_now\<lparr>hour := 14\<rparr>\<rparr>]
   \<and> dt_less (example_now\<lparr>hour := 14\<rparr>) example_now"
  by (simp add: serve_all_def add_note_def update_note_def assign_fields_def onupdate_fires_def
      empty_store_def dict_get_def next_id_def Let_def example_now_def dt_less_def dt_key_def)

text \<open>
  C9, amended.  Let the clock never step back over the calls that a sequence of note
  requests (creations, updates, deletions) makes, and let every note already stored
  satisfy the invariant and precede the reads to come (as in the empty database).  Then
  after every prefix of the sequence every stored note has \<open>updated_at \<ge> created_at\<close>.
  A created note takes its two timestamps from two consecutive reads.  An update keeps
  \<open>created_at\<close> and sets \<open>updated_at\<close> to the value its handler reads, or, when that
  is the value stored and another field is changed, to the value read at the commit.
\<close>

theorem note_updated_at_ge_created_at:
  "(clock_monotone db reqs \<and> (\<forall>n \<in> set (note_rows db). note_ok (all_reads db reqs) n)
      \<longrightarrow> (\<forall>k \<le> length reqs. \<forall>n \<in> set (note_rows (serve_all db (take k reqs))).
             dt_le (note_created_at n) (updated_at n)))
   \<and> (\<exists>n. add_note db data t_created t_updated = (Inr n, db\<lparr>note_rows := note_rows db @ [n]\<rparr>)
          \<and> note_created_at n = t_created \<and> updated_at n = t_updated)
   \<and> (update_note db nid data utcnow t_onupdate = (Inr n', db')
      \<longrightarrow> (\<exists>n. find (\<lambda>n. note_id n = nid) (note_rows db) = Some n
             \<and> note_created_at n' = note_created_at n
             \<and> updated_at n' = (if onupdate_fires n data utcnow then t_onupdate else utcnow)))"
proof (intro conjI impI allI ballI)
  fix k n
  assume a: "clock_monotone db reqs
      \<and> (\<forall>n \<in> set (note_rows db). note_ok (all_reads db reqs) n)"
    and n: "n \<in> set (note_rows (serve_all db (take k reqs)))"
  let ?pre = "all_reads db (take k reqs)"
  let ?post = "all_reads (serve_all db (take k reqs)) (drop k reqs)"
  have "sorted_wrt dt_le (?pre @ ?post)"
    using a all_reads_take_drop [of db reqs k] by (simp add: clock_monotone_def)
  moreover have "\<forall>n \<in> set (note_rows db). note_ok (?pre @ ?post) n"
    using a all_reads_take_drop [of db reqs k] by simp
  ultimately have "\<forall>n \<in> set (note_rows (serve_all db (take k reqs))). note_ok ?post n"
    by (rule serve_all_keeps_ok)
  with n show "dt_le (note_created_at n) (updated_at n)"
    by (simp add: note_ok_def)
next
  show "\<exists>n. add_note db data t_created t_updated = (Inr n, db\<lparr>note_rows := note_rows db @ [n]\<rparr>)
          \<and> note_created_at n = t_created \<and> updated_at n = t_updated"
    by (simp add: add_note_def Let_def)
next
  assume "update_note db nid data utcnow t_onupdate = (Inr n', db')"
  from update_note_fields [OF this]
  show "\<exists>n. find (\<lambda>n. note_id n = nid) (note_rows db) = Some n
             \<and> note_created_at n' = note_created_at n
             \<and> updated_at n' = (if onupdate_fires n data utcnow then t_onupdate else utcnow)"
    by blast
qed

theorem note_updated_at_ge_created_at_witness:
  "clock_monotone empty_store example_note_requests
   \<and> all_reads empty_store example_note_requests
       = [example_now, example_now\<lparr>microsecond := 7\<rparr>, example_now\<lparr>hour := 16\<rparr>,
          example_now\<lparr>hour := 16\<rparr>, example_now\<lparr>hour := 16, second := 2\<rparr>,
          example_now\<lparr>hour := 17\<rparr>, example_now\<lparr>hour := 17\<rparr>, example_now\<lparr>day := 11\<rparr>]
   \<and> map updated_at (note_rows (serve_all empty_store (take 3 example_note_requests)))
       = [example_now\<lparr>hour := 16, second := 2\<rparr>]
   \<and> length (note_rows (serve_all empty_store (take 4 example_note_requests))) = 2
   \<and> list_all (\<lambda>n. dt_le (note_created_at n) (updated_at n))
       (note_rows (serve_all empty_store (take 4 example_note_requests)))
   \<and> length (note_rows (serve_all empty_store example_note_requests)) = 1
   \<and> list_all (\<lambda>n. dt_le (note_created_at n) (updated_at n))
       (note_rows (serve_all empty_store example_note_requests))
   \<and> map note_created_at (note_rows (serve_all empty_store example_note_requests)) = [example_now]
   \<and> map updated_at (note_rows (serve_all empty_store example_note_requests))
       = [example_now\<lparr>day := 11\<rparr>]"
proof -
  have reads: "all_reads empty_store example_note_requests
       = [example_now, example_now\<lparr>microsecond := 7\<rparr>, example_now\<lparr>hour := 16\<rparr>,
          example_now\<lparr>hour := 16\<rparr>, example_now\<lparr>hour := 16, second := 2\<rparr>,
          example_now\<lparr>hour := 17\<rparr>, example_now\<lparr>hour := 17\<rparr>, example_now\<lparr>day := 11\<rparr>]"
    by code_simp
  have mono: "clock_monotone empty_store example_note_requests"
    by code_simp
  have len: "length example_note_requests = 6"
    by (simp add: example_note_requests_def)
  have u3: "map updated_at (note_rows (serve_all empty_store (take 3 example_note_requests)))
       = [example_now\<lparr>hour := 16, second := 2\<rparr>]"
    by code_simp
  have l4: "length (note_rows (serve_all empty_store (take 4 example_note_requests))) = 2"
    by code_simp
  have l6: "length (note_rows (serve_all empty_store example_note_requests)) = 1"
    by code_simp
  have c: "map note_created_at (note_rows (serve_all empty_store example_note_requests))
      = [example_now]"
    by code_simp
  have u: "map updated_at (note_rows (serve_all empty_store example_note_requests))
      = [example_now\<lparr>day := 11\<rparr>]"
    by code_simp
  have e: "\<forall>n \<in> set (note_rows empty_store). note_ok (all_reads empty_store example_note_requests) n"
    by (simp add: empty_store_def)
  from note_updated_at_ge_created_at
      [where reqs = example_note_requests and db = empty_store, THEN conjunct1] mono e len
  have "\<forall>k \<le> 6. \<forall>n \<in> set (note_rows (serve_all empty_store (take k example_note_requests))).
      dt_le (note_created_at n) (updated_at n)"
    by simp
  from this [rule_format, of 4] this [rule_format, of 6] len
  have "list_all (\<lambda>n. dt_le (note_created_at n) (updated_at n))
       (note_rows (serve_all empty_store (take 4 example_note_requests)))"
    "list_all (\<lambda>n. dt_le (note_created_at n) (updated_at n))
       (note_rows (serve_all empty_store example_note_requests))"
    by (simp_all add: list_all_iff)
  with mono reads u3 l4 l6 c u show ?thesis
    by (intro conjI)
qed

subsection \<open>Floating point: one rounding\<close>

lemma pow2_powi: "pow2 e = 2 powi e"
  by (simp add: pow2_def power_int_def power_one_over inverse_eq_divide)

lemma pow2_pos: "0 < pow2 e"
  by (simp add: pow2_powi)

lemma pow2_add: "pow2 (a + b) = pow2 a * pow2 b"
  by (simp add: pow2_powi power_int_add)

lemma pow2_diff: "pow2 (a - b) = pow2 a / pow2 b"
  by (simp add: pow2_powi power_int_diff)

lemma pow2_mono: "a \<le> b \<Longrightarrow> pow2 a \<le> pow2 b"
  by (simp add: pow2_powi power_int_increasing)

lemma pow2_nat: "0 \<le> e \<Longrightarrow> pow2 e = of_int (2 ^ nat e)"
  by (simp add: pow2_def)

lemma bitlen_pow2_bounds:
  assumes "0 < n"
  shows "pow2 (bitlen n - 1) \<le> of_int n" and "of_int n < pow2 (bitlen n)"
proof -
  from assms have b: "1 \<le> bitlen n"
    using bitlen_nonneg [of n] bitlen_eq_zero_iff [of n] by linarith
  from bitlen_bounds [OF assms]
  have lo: "2 ^ nat (bitlen n - 1) \<le> n" and hi: "n < 2 ^ nat (bitlen n)"
    by simp_all
  have "pow2 (bitlen n - 1) = of_int (2 ^ nat (bitlen n - 1))"
    using b by (intro pow2_nat) simp
  also have "\<dots> \<le> of_int n"
    using lo by (simp only: of_int_le_iff)
  finally show "pow2 (bitlen n - 1) \<le> of_int n" .
  have "(of_int n :: rat) < of_int (2 ^ nat (bitlen n))"
    using hi by (simp only: of_int_less_iff)
  also have "\<dots> = pow2 (bitlen n)"
    using b by (intro pow2_nat [symmetric]) simp
  finally show "of_int n < pow2 (bitlen n)" .
qed

lemma binade_bounds:
  assumes "x \<noteq> 0"
  shows "pow2 (binade x) \<le> \<bar>x\<bar>" and "\<bar>x\<bar> < pow2 (binade x + 1)"
proof -
  obtain p q where pq: "quotient_of x = (p, q)"
    by (cases "quotient_of x")
  then have q: "0 < q" and x: "x = of_int p / of_int q"
    by (auto dest: quotient_of_denom_pos quotient_of_div)
  with assms have p: "0 < \<bar>p\<bar>"
    by auto
  have ax: "\<bar>x\<bar> = of_int \<bar>p\<bar> / of_int q"
    using q x by (simp add: abs_divide)  
  define k where "k = bitlen \<bar>p\<bar> - bitlen q"
  have qpos: "(0::rat) < of_int q"
    using q by simp
  have up: "\<bar>x\<bar> < pow2 (k + 1)"
  proof -
    have "of_int \<bar>p\<bar> < pow2 (bitlen \<bar>p\<bar>)"
      using bitlen_pow2_bounds(2) [OF p] .
    also have "\<dots> = pow2 (k + 1) * pow2 (bitlen q - 1)"
      by (simp add: k_def pow2_add [symmetric])
    also have "\<dots> \<le> pow2 (k + 1) * of_int q"
      using bitlen_pow2_bounds(1) [OF q] pow2_pos [of "k + 1"] by simp
    finally show ?thesis
      using qpos by (simp add: ax pos_divide_less_eq)
  qed
  have low: "pow2 (k - 1) \<le> \<bar>x\<bar>"
  proof -
    have "pow2 (k - 1) * of_int q \<le> pow2 (k - 1) * pow2 (bitlen q)"
      using bitlen_pow2_bounds(2) [OF q] pow2_pos [of "k - 1"] by simp
    also have "\<dots> = pow2 (bitlen \<bar>p\<bar> - 1)"
      by (simp add: k_def pow2_add [symmetric])
    also have "\<dots> \<le> of_int \<bar>p\<bar>"
      using bitlen_pow2_bounds(1) [OF p] .
    finally show ?thesis
      using qpos by (simp add: ax pos_le_divide_eq)
  qed
  have b: "binade x = (if pow2 k \<le> \<bar>x\<bar> then k else k - 1)"
    by (simp add: binade_def pq k_def Let_def)
  show "pow2 (binade x) \<le> \<bar>x\<bar>"
    using low by (simp add: b)
  show "\<bar>x\<bar> < pow2 (binade x + 1)"
    using up by (simp add: b)
qed

lemma binade_unique:
  assumes "pow2 e \<le> \<bar>x\<bar>" and "\<bar>x\<bar> < pow2 (e + 1)"
  shows "binade x = e"
proof -
  from assms(1) pow2_pos [of e] have nz: "x \<noteq> 0"
    by auto
  note b = binade_bounds [OF nz]
  have "\<not> binade x < e"
  proof
    assume "binade x < e"
    then have "pow2 (binade x + 1) \<le> pow2 e"
      by (intro pow2_mono) simp
    with b(2) assms(1) show False by simp
  qed
  moreover have "\<not> e < binade x"
  proof
    assume "e < binade x"
    then have "pow2 (e + 1) \<le> pow2 (binade x)"
      by (intro pow2_mono) simp
    with b(1) assms(2) show False by simp
  qed
  ultimately show ?thesis by simp
qed

lemma round_half_even_eqI:
  assumes "\<bar>y - of_int m\<bar> < 1 / 2"
  shows "round_half_even y = m"
proof (cases "of_int m \<le> y")
  case True
  with assms have "\<lfloor>y\<rfloor> = m"
    by (intro floor_unique) (auto simp: abs_less_iff)
  with assms True show ?thesis
    by (simp add: round_half_even_def Let_def abs_less_iff)
next
  case False
  with assms have f: "\<lfloor>y\<rfloor> = m - 1"
    by (intro floor_unique) (auto simp: abs_less_iff)
  from assms False have "1 / 2 < y - of_int (m - 1)"
    by (simp add: abs_less_iff)
  with f show ?thesis
    by (simp add: round_half_even_def Let_def)
qed

lemma round_half_even_nearest: "\<bar>of_int (round_half_even y) - y\<bar> \<le> 1 / 2"
proof -
  have "of_int \<lfloor>y\<rfloor> \<le> y" "y < of_int \<lfloor>y\<rfloor> + 1"
    by linarith+
  then show ?thesis
    by (auto simp: round_half_even_def Let_def abs_le_iff)
qed

lemma round_half_even_tieI:
  assumes "\<bar>y - of_int m\<bar> = 1 / 2" and "even m"
  shows "round_half_even y = m"
proof (cases "of_int m \<le> y")
  case True
  with assms(1) have y: "y = of_int m + 1 / 2"
    by (simp add: abs_if split: if_splits)
  then have "\<lfloor>y\<rfloor> = m"
    by (intro floor_unique) simp_all
  with y assms(2) show ?thesis
    by (simp add: round_half_even_def Let_def)
next
  case False
  with assms(1) have y: "y = of_int (m - 1) + 1 / 2"
    by (simp add: abs_if split: if_splits)
  then have "\<lfloor>y\<rfloor> = m - 1"
    by (intro floor_unique) simp_all
  with y assms(2) show ?thesis
    by (simp add: round_half_even_def Let_def)
qed

lemma round_double_rounds:
  assumes "pow2 (e + 52) \<le> \<bar>x\<bar>" and "\<bar>x\<bar> < pow2 (e + 53)"
  shows "round_double x = of_int (round_half_even (x / pow2 e)) * pow2 e"
proof -
  from assms(1) pow2_pos [of "e + 52"] have nz: "x \<noteq> 0"
    by auto
  have "binade x = e + 52"
    using assms by (intro binade_unique) (simp_all add: add.assoc)
  then show ?thesis
    using nz by (simp add: round_double_def Let_def)
qed

lemma round_double_eqI:
  assumes "r = of_int m * pow2 e"
    and "pow2 (e + 52) \<le> \<bar>x\<bar>" and "\<bar>x\<bar> < pow2 (e + 53)"
    and "\<bar>x / pow2 e - of_int m\<bar> < 1 / 2"
  shows "round_double x = r"
  using round_double_rounds [OF assms(2,3)] round_half_even_eqI [OF assms(4)] assms(1) by simp

lemma round_double_tieI:
  assumes "r = of_int m * pow2 e"
    and "pow2 (e + 52) \<le> \<bar>x\<bar>" and "\<bar>x\<bar> < pow2 (e + 53)"
    and "\<bar>x / pow2 e - of_int m\<bar> = 1 / 2" and "even m"
  shows "round_double x = r"
  using round_double_rounds [OF assms(2,3)] round_half_even_tieI [OF assms(4,5)] assms(1) by simp

text \<open>The relative error of one operation is at most \<open>2 ^ - 53\<close>.\<close>

lemma round_double_error: "\<bar>round_double x - x\<bar> \<le> \<bar>x\<bar> * pow2 (- 53)"
proof (cases "x = 0")
  case True
  then show ?thesis
    by (simp add: round_double_def)
next
  case False
  define ulp where "ulp = pow2 (binade x - 52)"
  have ulp: "0 < ulp"
    by (simp add: ulp_def pow2_pos)
  have r: "round_double x = of_int (round_half_even (x / ulp)) * ulp"
    using False by (simp add: round_double_def ulp_def Let_def)
  have "round_double x - x = (of_int (round_half_even (x / ulp)) - x / ulp) * ulp"
    using ulp by (simp add: r left_diff_distrib)
  then have "\<bar>round_double x - x\<bar> = \<bar>of_int (round_half_even (x / ulp)) - x / ulp\<bar> * ulp"
    using ulp by (simp add: abs_mult)
  also have "\<dots> \<le> 1 / 2 * ulp"
    using ulp round_half_even_nearest [of "x / ulp"] by (intro mult_right_mono) simp_all
  also have "\<dots> = pow2 (binade x) * pow2 (- 53)"
    by (simp add: ulp_def pow2_add [symmetric] pow2_diff) (simp add: pow2_def)
  also have "\<dots> \<le> \<bar>x\<bar> * pow2 (- 53)"
    using binade_bounds(1) [OF False] pow2_pos [of "- 53"] by (intro mult_right_mono) simp_all
  finally show ?thesis .
qed

lemma round_double_error_bound:
  assumes "\<bar>x\<bar> \<le> b"
  shows "\<bar>round_double x - x\<bar> \<le> b * pow2 (- 53)"
proof -
  have "\<bar>x\<bar> * pow2 (- 53) \<le> b * pow2 (- 53)"
    using assms pow2_pos [of "- 53"] by (intro mult_right_mono) simp_all
  with round_double_error [of x] show ?thesis
    by simp
qed

subsection \<open>Floating point: the error of the temperature formula\<close>

lemma u_small: "pow2 (- 53) \<le> 1 / 2 ^ 53" "0 < pow2 (- 53)"
  by (simp_all add: pow2_def)

lemma fl_error:
  "\<bar>x + y\<bar> \<le> b \<Longrightarrow> \<bar>fl_add x y - (x + y)\<bar> \<le> b * pow2 (- 53)"
  "\<bar>x - y\<bar> \<le> b \<Longrightarrow> \<bar>fl_sub x y - (x - y)\<bar> \<le> b * pow2 (- 53)"
  "\<bar>x * y\<bar> \<le> b \<Longrightarrow> \<bar>fl_mul x y - x * y\<bar> \<le> b * pow2 (- 53)"
  "\<bar>x / y\<bar> \<le> b \<Longrightarrow> \<bar>fl_div x y - x / y\<bar> \<le> b * pow2 (- 53)"
  by (simp_all add: fl_add_def fl_sub_def fl_mul_def fl_div_def round_double_error_bound)

lemma float_factor_error:
  assumes "0 \<le> h" and "h \<le> 28"
  shows "\<bar>float_factor h - spec_factor h\<bar> \<le> 5 * pow2 (- 53)"
proof -
  define u where "u = pow2 (- 53)"
  define a :: rat where "a = of_int \<bar>14 - h\<bar>"
  define d where "d = fl_div a 14"
  define s where "s = fl_sub 1 d"
  define m where "m = fl_mul (1 / 2) s"
  have u: "0 < u" "u \<le> 1 / 100"
    by (simp_all add: u_def pow2_def)
  from assms have "\<bar>14 - h\<bar> \<le> 14"
    by auto
  then have "(of_int \<bar>14 - h\<bar> :: rat) \<le> of_int 14"
    by (simp only: of_int_le_iff)
  then have a: "0 \<le> a" "a \<le> 14"
    by (simp_all add: a_def)
  have "\<bar>a / 14\<bar> \<le> 1"
    using a by simp
  then have ed: "\<bar>d - a / 14\<bar> \<le> 1 * u"
    unfolding d_def u_def by (rule fl_error)
  have "1 - d \<le> 2 \<and> - (1 - d) \<le> 2"
    using ed a u unfolding abs_le_iff by linarith
  then have "\<bar>1 - d\<bar> \<le> 2"
    by (simp add: abs_le_iff)
  then have es: "\<bar>s - (1 - d)\<bar> \<le> 2 * u"
    unfolding s_def u_def by (rule fl_error)
  have "s / 2 \<le> 1 \<and> - (s / 2) \<le> 1"
    using es ed a u unfolding abs_le_iff by linarith
  then have "\<bar>1 / 2 * s\<bar> \<le> 1"
    by (simp add: abs_le_iff)
  then have "\<bar>m - 1 / 2 * s\<bar> \<le> 1 * u"
    unfolding m_def u_def by (rule fl_error)
  then have em: "\<bar>m - s / 2\<bar> \<le> u"
    by simp
  have "1 / 2 + m \<le> 2 \<and> - (1 / 2 + m) \<le> 2"
    using em es ed a u unfolding abs_le_iff by linarith
  then have "\<bar>1 / 2 + m\<bar> \<le> 2"
    by (simp add: abs_le_iff)
  then have ef: "\<bar>fl_add (1 / 2) m - (1 / 2 + m)\<bar> \<le> 2 * u"
    unfolding u_def by (rule fl_error)
  have f: "float_factor h = fl_add (1 / 2) m"
    by (simp add: float_factor_def m_def s_def d_def a_def)
  have sp: "spec_factor h = 1 - a / 28"
    by (simp add: spec_factor_def a_def field_simps)
  show ?thesis
    unfolding f sp u_def [symmetric]
  proof (rule abs_leI)
    show "fl_add (1 / 2) m - (1 - a / 28) \<le> 5 * u"
      using ef em es ed u unfolding abs_le_iff by linarith
    show "- (fl_add (1 / 2) m - (1 - a / 28)) \<le> 5 * u"
      using ef em es ed u unfolding abs_le_iff by linarith
  qed
qed

lemma spec_factor_bounds:
  assumes "0 \<le> h" and "h \<le> 28"
  shows "1 / 2 \<le> spec_factor h" and "spec_factor h \<le> 1"
proof -
  define a :: rat where "a = of_int \<bar>14 - h\<bar>"
  from assms have "\<bar>14 - h\<bar> \<le> 14"
    by auto
  then have "(of_int \<bar>14 - h\<bar> :: rat) \<le> of_int 14"
    by (simp only: of_int_le_iff)
  then have a: "0 \<le> a" "a \<le> 14"
    by (simp_all add: a_def)
  have sp: "spec_factor h = 1 - a / 28"
    by (simp add: spec_factor_def a_def field_simps)
  show "1 / 2 \<le> spec_factor h" and "spec_factor h \<le> 1"
    using a unfolding sp by linarith+
qed

lemma float_temp_error:
  assumes h: "0 \<le> h" "h \<le> 28"
    and r: "0 \<le> temp_max - temp_min" "temp_max - temp_min \<le> 10"
    and lo: "0 \<le> temp_min" "temp_min \<le> 32"
  shows "\<bar>float_temp temp_min temp_max h - spec_temp temp_min temp_max h\<bar> \<le> 130 * pow2 (- 53)"
proof -
  define u where "u = pow2 (- 53)"
  define r :: rat where "r = of_int (temp_max - temp_min)"
  define l :: rat where "l = of_int temp_min"
  define F where "F = float_factor h"
  define f where "f = spec_factor h"
  define P where "P = fl_mul r F"
  have u: "0 < u" "u \<le> 1 / 100"
    by (simp_all add: u_def pow2_def)
  have rb: "0 \<le> r" "r \<le> 10"
    using r by (simp_all add: r_def)
  have lb: "0 \<le> l" "l \<le> 32"
    using lo by (simp_all add: l_def)
  have eF: "\<bar>F - f\<bar> \<le> 5 * u"
    unfolding F_def f_def u_def using h by (rule float_factor_error)
  have fb: "1 / 2 \<le> f" "f \<le> 1"
    unfolding f_def using h by (rule spec_factor_bounds)+
  have "\<bar>r * F - r * f\<bar> = r * \<bar>F - f\<bar>"
    using rb by (simp add: right_diff_distrib [symmetric] abs_mult)
  also have "\<dots> \<le> 10 * (5 * u)"
    using rb eF by (intro mult_mono) simp_all
  finally have erF: "\<bar>r * F - r * f\<bar> \<le> 50 * u"
    by simp
  have rf: "0 \<le> r * f" "r * f \<le> 10"
    using rb fb by (simp_all add: mult_le_one [of "r / 10" f, simplified] mult_mono [of r 10 f 1, simplified])
  have "r * F \<le> 16 \<and> - (r * F) \<le> 16"
    using erF rf u unfolding abs_le_iff by linarith
  then have "\<bar>r * F\<bar> \<le> 16"
    by (simp add: abs_le_iff)
  then have eP: "\<bar>P - r * F\<bar> \<le> 16 * u"
    unfolding P_def u_def by (rule fl_error)
  have "l + P \<le> 64 \<and> - (l + P) \<le> 64"
    using eP erF rf lb u unfolding abs_le_iff by linarith
  then have "\<bar>l + P\<bar> \<le> 64"
    by (simp add: abs_le_iff)
  then have eT: "\<bar>fl_add l P - (l + P)\<bar> \<le> 64 * u"
    unfolding u_def by (rule fl_error)
  have ft: "float_temp temp_min temp_max h = fl_add l P"
    by (simp add: float_temp_def l_def P_def r_def F_def)
  have st: "spec_temp temp_min temp_max h = l + r * f"
    by (simp add: spec_temp_def l_def r_def f_def)
  show ?thesis
    unfolding ft st u_def [symmetric]
  proof (rule abs_leI)
    show "fl_add l P - (l + r * f) \<le> 130 * u"
      using eT eP erF u unfolding abs_le_iff by linarith
    show "- (fl_add l P - (l + r * f)) \<le> 130 * u"
      using eT eP erF u unfolding abs_le_iff by linarith
  qed
qed

subsection \<open>Floating point: the hours at which the formula gives a half\<close>

text \<open>
  Where the exact value lies halfway between two integers the error bound decides
  nothing; there the float operations are followed one by one.  Each step names the
  significand and the exponent of its result.
\<close>

lemma float_temp_22_32_7: "float_temp 22 32 7 = 59 / 2"
proof -
  have u: "float_temp 22 32 7
      = fl_add 22 (fl_mul 10 (fl_add (1 / 2) (fl_mul (1 / 2) (fl_sub 1 (fl_div 7 14)))))"
    by (simp add: float_temp_def float_factor_def)
  have d: "fl_div 7 14 = 1 / 2"
    unfolding fl_div_def
    by (rule round_double_eqI [where m = 4503599627370496 and e = "- 53"]; simp add: pow2_def)
  have s: "fl_sub 1 (1 / 2) = 1 / 2"
    unfolding fl_sub_def
    by (rule round_double_eqI [where m = 4503599627370496 and e = "- 53"]; simp add: pow2_def)
  have m: "fl_mul (1 / 2) (1 / 2) = 1 / 4"
    unfolding fl_mul_def
    by (rule round_double_eqI [where m = 4503599627370496 and e = "- 54"]; simp add: pow2_def)
  have f: "fl_add (1 / 2) (1 / 4) = 3 / 4"
    unfolding fl_add_def
    by (rule round_double_eqI [where m = 6755399441055744 and e = "- 53"]; simp add: pow2_def)
  have p: "fl_mul 10 (3 / 4) = 15 / 2"
    unfolding fl_mul_def
    by (rule round_double_eqI [where m = 8444249301319680 and e = "- 50"]; simp add: pow2_def)
  have t: "fl_add 22 (15 / 2) = 59 / 2"
    unfolding fl_add_def
    by (rule round_double_eqI [where m = 8303511812964352 and e = "- 48"]; simp add: pow2_def)
  show ?thesis
    by (simp only: u d s m f p t)
qed

lemma float_temp_18_25_0: "float_temp 18 25 0 = 43 / 2"
proof -
  have u: "float_temp 18 25 0
      = fl_add 18 (fl_mul 7 (fl_add (1 / 2) (fl_mul (1 / 2) (fl_sub 1 (fl_div 14 14)))))"
    by (simp add: float_temp_def float_factor_def)
  have d: "fl_div 14 14 = 1"
    unfolding fl_div_def
    by (rule round_double_eqI [where m = 4503599627370496 and e = "- 52"]; simp add: pow2_def)
  have s: "fl_sub 1 1 = 0"
    by (simp add: fl_sub_def round_double_def)
  have m: "fl_mul (1 / 2) 0 = 0"
    by (simp add: fl_mul_def round_double_def)
  have f: "fl_add (1 / 2) 0 = 1 / 2"
    unfolding fl_add_def
    by (rule round_double_eqI [where m = 4503599627370496 and e = "- 53"]; simp add: pow2_def)
  have p: "fl_mul 7 (1 / 2) = 7 / 2"
    unfolding fl_mul_def
    by (rule round_double_eqI [where m = 7881299347898368 and e = "- 51"]; simp add: pow2_def)
  have t: "fl_add 18 (7 / 2) = 43 / 2"
    unfolding fl_add_def
    by (rule round_double_eqI [where m = 6051711999279104 and e = "- 48"]; simp add: pow2_def)
  show ?thesis
    by (simp only: u d s m f p t)
qed

lemma float_temp_18_25_4: "float_temp 18 25 4 = 45 / 2"
proof -
  have u: "float_temp 18 25 4
      = fl_add 18 (fl_mul 7 (fl_add (1 / 2) (fl_mul (1 / 2) (fl_sub 1 (fl_div 10 14)))))"
    by (simp add: float_temp_def float_factor_def)
  have d: "fl_div 10 14 = 6433713753386423 * pow2 (- 53)"
    unfolding fl_div_def
    by (rule round_double_eqI [where m = 6433713753386423 and e = "- 53"]; simp add: pow2_def)
  have s: "fl_sub 1 (6433713753386423 * pow2 (- 53)) = 5146971002709138 * pow2 (- 54)"
    unfolding fl_sub_def
    by (rule round_double_eqI [where m = 5146971002709138 and e = "- 54"]; simp add: pow2_def)
  have m: "fl_mul (1 / 2) (5146971002709138 * pow2 (- 54)) = 5146971002709138 * pow2 (- 55)"
    unfolding fl_mul_def
    by (rule round_double_eqI [where m = 5146971002709138 and e = "- 55"]; simp add: pow2_def)
  have f: "fl_add (1 / 2) (5146971002709138 * pow2 (- 55)) = 5790342378047780 * pow2 (- 53)"
    unfolding fl_add_def
    by (rule round_double_tieI [where m = 5790342378047780 and e = "- 53"]; simp add: pow2_def)
  have p: "fl_mul 7 (5790342378047780 * pow2 (- 53)) = 9 / 2"
    unfolding fl_mul_def
    by (rule round_double_tieI [where m = 5066549580791808 and e = "- 50"]; simp add: pow2_def)
  have t: "fl_add 18 (9 / 2) = 45 / 2"
    unfolding fl_add_def
    by (rule round_double_eqI [where m = 6333186975989760 and e = "- 48"]; simp add: pow2_def)
  show ?thesis
    by (simp only: u d s m f p t)
qed

lemma float_temp_18_25_8: "float_temp 18 25 8 = 47 / 2"
proof -
  have u: "float_temp 18 25 8
      = fl_add 18 (fl_mul 7 (fl_add (1 / 2) (fl_mul (1 / 2) (fl_sub 1 (fl_div 6 14)))))"
    by (simp add: float_temp_def float_factor_def)
  have d: "fl_div 6 14 = 7720456504063707 * pow2 (- 54)"
    unfolding fl_div_def
    by (rule round_double_eqI [where m = 7720456504063707 and e = "- 54"]; simp add: pow2_def)
  have s: "fl_sub 1 (7720456504063707 * pow2 (- 54)) = 5146971002709138 * pow2 (- 53)"
    unfolding fl_sub_def
    by (rule round_double_tieI [where m = 5146971002709138 and e = "- 53"]; simp add: pow2_def)
  have m: "fl_mul (1 / 2) (5146971002709138 * pow2 (- 53)) = 5146971002709138 * pow2 (- 54)"
    unfolding fl_mul_def
    by (rule round_double_eqI [where m = 5146971002709138 and e = "- 54"]; simp add: pow2_def)
  have f: "fl_add (1 / 2) (5146971002709138 * pow2 (- 54)) = 7077085128725065 * pow2 (- 53)"
    unfolding fl_add_def
    by (rule round_double_eqI [where m = 7077085128725065 and e = "- 53"]; simp add: pow2_def)
  have p: "fl_mul 7 (7077085128725065 * pow2 (- 53)) = 11 / 2"
    unfolding fl_mul_def
    by (rule round_double_eqI [where m = 6192449487634432 and e = "- 50"]; simp add: pow2_def)
  have t: "fl_add 18 (11 / 2) = 47 / 2"
    unfolding fl_add_def
    by (rule round_double_eqI [where m = 6614661952700416 and e = "- 48"]; simp add: pow2_def)
  show ?thesis
    by (simp only: u d s m f p t)
qed

lemma float_temp_18_25_12: "float_temp 18 25 12 = 49 / 2"
proof -
  have u: "float_temp 18 25 12
      = fl_add 18 (fl_mul 7 (fl_add (1 / 2) (fl_mul (1 / 2) (fl_sub 1 (fl_div 2 14)))))"
    by (simp add: float_temp_def float_factor_def)
  have d: "fl_div 2 14 = 5146971002709138 * pow2 (- 55)"
    unfolding fl_div_def
    by (rule round_double_eqI [where m = 5146971002709138 and e = "- 55"]; simp add: pow2_def)
  have s: "fl_sub 1 (5146971002709138 * pow2 (- 55)) = 7720456504063708 * pow2 (- 53)"
    unfolding fl_sub_def
    by (rule round_double_tieI [where m = 7720456504063708 and e = "- 53"]; simp add: pow2_def)
  have m: "fl_mul (1 / 2) (7720456504063708 * pow2 (- 53)) = 7720456504063708 * pow2 (- 54)"
    unfolding fl_mul_def
    by (rule round_double_eqI [where m = 7720456504063708 and e = "- 54"]; simp add: pow2_def)
  have f: "fl_add (1 / 2) (7720456504063708 * pow2 (- 54)) = 8363827879402350 * pow2 (- 53)"
    unfolding fl_add_def
    by (rule round_double_eqI [where m = 8363827879402350 and e = "- 53"]; simp add: pow2_def)
  have p: "fl_mul 7 (8363827879402350 * pow2 (- 53)) = 13 / 2"
    unfolding fl_mul_def
    by (rule round_double_eqI [where m = 7318349394477056 and e = "- 50"]; simp add: pow2_def)
  have t: "fl_add 18 (13 / 2) = 49 / 2"
    unfolding fl_add_def
    by (rule round_double_eqI [where m = 6896136929411072 and e = "- 48"]; simp add: pow2_def)
  show ?thesis
    by (simp only: u d s m f p t)
qed

lemma float_temp_16_22_7: "float_temp 16 22 7 = 41 / 2"
proof -
  have u: "float_temp 16 22 7
      = fl_add 16 (fl_mul 6 (fl_add (1 / 2) (fl_mul (1 / 2) (fl_sub 1 (fl_div 7 14)))))"
    by (simp add: float_temp_def float_factor_def)
  have d: "fl_div 7 14 = 1 / 2"
    unfolding fl_div_def
    by (rule round_double_eqI [where m = 4503599627370496 and e = "- 53"]; simp add: pow2_def)
  have s: "fl_sub 1 (1 / 2) = 1 / 2"
    unfolding fl_sub_def
    by (rule round_double_eqI [where m = 4503599627370496 and e = "- 53"]; simp add: pow2_def)
  have m: "fl_mul (1 / 2) (1 / 2) = 1 / 4"
    unfolding fl_mul_def
    by (rule round_double_eqI [where m = 4503599627370496 and e = "- 54"]; simp add: pow2_def)
  have f: "fl_add (1 / 2) (1 / 4) = 3 / 4"
    unfolding fl_add_def
    by (rule round_double_eqI [where m = 6755399441055744 and e = "- 53"]; simp add: pow2_def)
  have p: "fl_mul 6 (3 / 4) = 9 / 2"
    unfolding fl_mul_def
    by (rule round_double_eqI [where m = 5066549580791808 and e = "- 50"]; simp add: pow2_def)
  have t: "fl_add 16 (9 / 2) = 41 / 2"
    unfolding fl_add_def
    by (rule round_double_eqI [where m = 5770237022568448 and e = "- 48"]; simp add: pow2_def)
  show ?thesis
    by (simp only: u d s m f p t)
qed

subsection \<open>The float and the exact temperature round to the same integer\<close>

lemma round_agree:
  assumes j: "of_int j = 28 * s" and nt: "j mod 28 \<noteq> 14" and t: "\<bar>T - s\<bar> < 1 / 28"
  shows "round_half_even T = round_half_even s"
proof -
  define v where "v = round_half_even s"
  have "\<bar>of_int v - s\<bar> \<le> 1 / 2"
    unfolding v_def by (rule round_half_even_nearest)
  then have "\<bar>28 * of_int v - 28 * s\<bar> \<le> 14"
    unfolding abs_le_iff by linarith
  then have "\<bar>(of_int (28 * v - j) :: rat)\<bar> \<le> of_int 14"
    by (simp add: j)
  then have b: "\<bar>28 * v - j\<bar> \<le> 14"
    by (simp only: of_int_abs [symmetric] of_int_le_iff)
  have "\<bar>28 * v - j\<bar> \<noteq> 14"
    using nt by presburger
  with b have "\<bar>28 * v - j\<bar> \<le> 13"
    by simp
  then have "\<bar>(of_int (28 * v - j) :: rat)\<bar> \<le> of_int 13"
    by (simp only: of_int_abs [symmetric] of_int_le_iff)
  then have "\<bar>28 * of_int v - 28 * s\<bar> \<le> 13"
    by (simp add: j)
  then have "\<bar>T - of_int v\<bar> < 1 / 2"
    using t unfolding abs_le_iff abs_less_iff by linarith
  then show ?thesis
    unfolding v_def [symmetric] by (rule round_half_even_eqI)
qed

lemma hour_enum:
  "0 \<le> h \<Longrightarrow> h \<le> 23 \<Longrightarrow>
   h \<in> {0, 1, 2, 3, 4, 5, 6, 7, 8, 9, 10, 11, 12, 13, 14, 15, 16, 17, 18, 19, 20, 21, 22, 23 :: int}"
  by (simp; arith)

lemma temp_mirror:
  "float_temp temp_min temp_max (28 - h) = float_temp temp_min temp_max h"
  "spec_temp temp_min temp_max (28 - h) = spec_temp temp_min temp_max h"
proof -
  have "\<bar>14 - (28 - h)\<bar> = \<bar>14 - h\<bar>"
    by simp
  then show "float_temp temp_min temp_max (28 - h) = float_temp temp_min temp_max h"
    "spec_temp temp_min temp_max (28 - h) = spec_temp temp_min temp_max h"
    by (simp_all only: float_temp_def float_factor_def spec_temp_def spec_factor_def)
qed

lemma temp_agree_non_tie:
  assumes "0 \<le> h" and "h \<le> 28"
    and "0 \<le> temp_max - temp_min" and "temp_max - temp_min \<le> 10"
    and "0 \<le> temp_min" and "temp_min \<le> 32"
    and nt: "(28 * temp_min + (temp_max - temp_min) * (28 - \<bar>14 - h\<bar>)) mod 28 \<noteq> 14"
  shows "round_half_even (float_temp temp_min temp_max h)
           = round_half_even (spec_temp temp_min temp_max h)"
proof (rule round_agree [OF _ nt])
  show "of_int (28 * temp_min + (temp_max - temp_min) * (28 - \<bar>14 - h\<bar>))
          = 28 * spec_temp temp_min temp_max h"
    by (simp add: spec_temp_def spec_factor_def field_simps)
  have "(130::rat) * pow2 (- 53) < 1 / 28"
    by (simp add: pow2_def)
  with float_temp_error [OF assms(1-6)]
  show "\<bar>float_temp temp_min temp_max h - spec_temp temp_min temp_max h\<bar> < 1 / 28"
    by simp
qed

lemma temp_agree_sunny:
  assumes "0 \<le> h" and "h \<le> 23"
  shows "round_half_even (float_temp 22 32 h) = round_half_even (spec_temp 22 32 h)"
proof (cases "h \<in> {7, 21}")
  case True
  have "spec_temp 22 32 7 = 59 / 2"
    by (simp add: spec_temp_def spec_factor_def)
  then have e7: "float_temp 22 32 7 = spec_temp 22 32 7"
    by (simp only: float_temp_22_32_7)
  have e21: "float_temp 22 32 21 = spec_temp 22 32 21"
    using e7 temp_mirror [of 22 32 7] by simp
  from True e7 e21 show ?thesis
    by auto
next
  case False
  with hour_enum [OF assms]
  have "(28 * 22 + (32 - 22) * (28 - \<bar>14 - h\<bar>)) mod 28 \<noteq> 14"
    by auto
  with assms show ?thesis
    by (intro temp_agree_non_tie) simp_all
qed

lemma temp_agree_partly_cloudy:
  assumes "0 \<le> h" and "h \<le> 23"
  shows "round_half_even (float_temp 20 28 h) = round_half_even (spec_temp 20 28 h)"
proof -
  from hour_enum [OF assms]
  have "(28 * 20 + (28 - 20) * (28 - \<bar>14 - h\<bar>)) mod 28 \<noteq> 14"
    by auto
  with assms show ?thesis
    by (intro temp_agree_non_tie) simp_all
qed

lemma temp_agree_cloudy:
  assumes "0 \<le> h" and "h \<le> 23"
  shows "round_half_even (float_temp 18 25 h) = round_half_even (spec_temp 18 25 h)"
proof (cases "h \<in> {0, 4, 8, 12, 16, 20}")
  case True
  have "spec_temp 18 25 0 = 43 / 2"
    by (simp add: spec_temp_def spec_factor_def)
  then have e0: "float_temp 18 25 0 = spec_temp 18 25 0"
    by (simp only: float_temp_18_25_0)
  have "spec_temp 18 25 4 = 45 / 2"
    by (simp add: spec_temp_def spec_factor_def)
  then have e4: "float_temp 18 25 4 = spec_temp 18 25 4"
    by (simp only: float_temp_18_25_4)
  have "spec_temp 18 25 8 = 47 / 2"
    by (simp add: spec_temp_def spec_factor_def)
  then have e8: "float_temp 18 25 8 = spec_temp 18 25 8"
    by (simp only: float_temp_18_25_8)
  have e20: "float_temp 18 25 20 = spec_temp 18 25 20"
    using e8 temp_mirror [of 18 25 8] by simp
  have "spec_temp 18 25 12 = 49 / 2"
    by (simp add: spec_temp_def spec_factor_def)
  then have e12: "float_temp 18 25 12 = spec_temp 18 25 12"
    by (simp only: float_temp_18_25_12)
  have e16: "float_temp 18 25 16 = spec_temp 18 25 16"
    using e12 temp_mirror [of 18 25 12] by simp
  from True e0 e4 e8 e20 e12 e16 show ?thesis
    by auto
next
  case False
  with hour_enum [OF assms]
  have "(28 * 18 + (25 - 18) * (28 - \<bar>14 - h\<bar>)) mod 28 \<noteq> 14"
    by auto
  with assms show ?thesis
    by (intro temp_agree_non_tie) simp_all
qed

lemma temp_agree_light_rain:
  assumes "0 \<le> h" and "h \<le> 23"
  shows "round_half_even (float_temp 16 22 h) = round_half_even (spec_temp 16 22 h)"
proof (cases "h \<in> {7, 21}")
  case True
  have "spec_temp 16 22 7 = 41 / 2"
    by (simp add: spec_temp_def spec_factor_def)
  then have e7: "float_temp 16 22 7 = spec_temp 16 22 7"
    by (simp only: float_temp_16_22_7)
  have e21: "float_temp 16 22 21 = spec_temp 16 22 21"
    using e7 temp_mirror [of 16 22 7] by simp
  from True e7 e21 show ?thesis
    by auto
next
  case False
  with hour_enum [OF assms]
  have "(28 * 16 + (22 - 16) * (28 - \<bar>14 - h\<bar>)) mod 28 \<noteq> 14"
    by auto
  with assms show ?thesis
    by (intro temp_agree_non_tie) simp_all
qed

lemma temp_agree_clear:
  assumes "0 \<le> h" and "h \<le> 23"
  shows "round_half_even (float_temp 18 26 h) = round_half_even (spec_temp 18 26 h)"
proof -
  from hour_enum [OF assms]
  have "(28 * 18 + (26 - 18) * (28 - \<bar>14 - h\<bar>)) mod 28 \<noteq> 14"
    by auto
  with assms show ?thesis
    by (intro temp_agree_non_tie) simp_all
qed

lemma temp_agree:
  assumes "c \<in> set conditions" and "0 \<le> h" and "h \<le> 23"
  shows "round_half_even (float_temp (fst (temp_range c)) (snd (temp_range c)) h)
           = round_half_even (spec_temp (fst (temp_range c)) (snd (temp_range c)) h)"
  using assms(1) temp_agree_sunny [OF assms(2,3)] temp_agree_partly_cloudy [OF assms(2,3)]
    temp_agree_cloudy [OF assms(2,3)] temp_agree_light_rain [OF assms(2,3)]
    temp_agree_clear [OF assms(2,3)]
  by (auto simp: conditions_def)

subsection \<open>get_mock_weather\<close>

lemma round_half_even_of_int: "round_half_even (of_int k) = k"
  by (rule round_half_even_eqI) simp

lemma round_half_even_mono:
  assumes "x \<le> y"
  shows "round_half_even x \<le> round_half_even y"
proof (rule ccontr)
  assume "\<not> round_half_even x \<le> round_half_even y"
  then have "round_half_even y + 1 \<le> round_half_even x"
    by simp
  then have "(of_int (round_half_even y) :: rat) + 1 \<le> of_int (round_half_even x)"
    by (metis of_int_1 of_int_add of_int_le_iff)
  with round_half_even_nearest [of x] round_half_even_nearest [of y] assms
  have "x = y"
    unfolding abs_le_iff by linarith
  with \<open>\<not> round_half_even x \<le> round_half_even y\<close> show False
    by simp
qed

lemma selected_in_conditions: "conditions ! nat (d mod int (length conditions)) \<in> set conditions"
proof -
  have "0 < int (length conditions)"
    by (simp add: conditions_def)
  then have "nat (d mod int (length conditions)) < length conditions"
    by (metis nat_less_iff pos_mod_bound pos_mod_sign)
  then show ?thesis
    by (rule nth_mem)
qed

text \<open>The ranges of the five conditions.\<close>

lemma selected_range_cases:
  "selected_range d \<in> {(22, 32), (20, 28), (18, 25), (16, 22), (18, 26)}"
  using selected_in_conditions [of d] by (auto simp: selected_range_def conditions_def)

lemma get_mock_weather_fields:
  assumes "get_mock_weather now rnd = Inr w"
  shows "w_temperature w
           = round_half_even (float_temp (fst (selected_range (day (now 0))))
               (snd (selected_range (day (now 0)))) (hour (now 1)))"
    and "w_condition w = condition (conditions ! nat (day (now 0) mod int (length conditions)))"
    and "w_icon w = icon (conditions ! nat (day (now 0) mod int (length conditions)))"
  using assms by (auto simp: get_mock_weather_def selected_range_def Let_def split: sum.splits)

lemma displayed_temperature_exact:
  assumes "get_mock_weather now rnd = Inr w" and "0 \<le> hour (now 1)" and "hour (now 1) \<le> 23"
  shows "w_temperature w
           = round_half_even (spec_temp (fst (selected_range (day (now 0))))
               (snd (selected_range (day (now 0)))) (hour (now 1)))"
  unfolding get_mock_weather_fields(1) [OF assms(1)] selected_range_def
  using selected_in_conditions assms(2,3) by (rule temp_agree)


text \<open>The two example invocations, evaluated.\<close>

lemma example_weather_eval: "get_mock_weather example_clock example_rnd = Inr example_weather"
  by code_simp

lemma example_weather'_eval: "get_mock_weather example_clock' example_rnd' = Inr example_weather'"
  by code_simp

lemma example_clock_reads:
  "day (example_clock 0) = 10" "day (example_clock' 0) = 10"
  "hour (example_clock 1) = 15" "hour (example_clock' 1) = 15"
  by (simp_all add: example_clock_def example_clock'_def example_now_def)

lemma selected_range_10: "selected_range 10 = (22, 32)"
  by (simp add: selected_range_def conditions_def)

text \<open>
  C6, as stated, fails: the function reads the clock once for the day and once more for
  the hour.  Of two invocations made in the same hour of the same day, one can read the
  hour after midnight: both return Sunny, the one 29 degrees and the other 27.
\<close>

theorem weather_same_hour_counterexample:
  "date_of (example_clock_late 0) = date_of (example_clock_midnight 0)
   \<and> hour (example_clock_late 0) = hour (example_clock_midnight 0)
   \<and> (case get_mock_weather example_clock_late example_rnd of
        Inl e \<Rightarrow> False
      | Inr w \<Rightarrow> w_condition w = ''Sunny'' \<and> w_temperature w = 29)
   \<and> (case get_mock_weather example_clock_midnight example_rnd of
        Inl e \<Rightarrow> False
      | Inr w \<Rightarrow> w_condition w = ''Sunny'' \<and> w_temperature w = 27)"
proof -
  have "date_of (example_clock_late 0) = date_of (example_clock_midnight 0)"
    "hour (example_clock_late 0) = hour (example_clock_midnight 0)"
    by (simp_all add: example_clock_late_def example_clock_midnight_def example_now_def
        date_of_def)
  moreover have "case get_mock_weather example_clock_late example_rnd of
        Inl e \<Rightarrow> False
      | Inr w \<Rightarrow> w_condition w = ''Sunny'' \<and> w_temperature w = 29"
    by code_simp
  moreover have "case get_mock_weather example_clock_midnight example_rnd of
        Inl e \<Rightarrow> False
      | Inr w \<Rightarrow> w_condition w = ''Sunny'' \<and> w_temperature w = 27"
    by code_simp
  ultimately show ?thesis
    by (intro conjI)
qed

text \<open>
  C6, amended.  Two invocations of the weather generator whose clock reads for the day
  give the same day of the month and whose clock reads for the hour give the same hour
  (as they do when every clock read of both invocations falls in one hour of one day)
  return the same condition name, the same icon and the same rounded temperature,
  whatever the random generator returns and whatever the other clock reads are.
\<close>

theorem weather_same_day_same_hour:
  "get_mock_weather now rnd = Inr w \<and> get_mock_weather now' rnd' = Inr w'
   \<and> day (now 0) = day (now' 0) \<and> hour (now 1) = hour (now' 1)
   \<longrightarrow> w_condition w = w_condition w' \<and> w_icon w = w_icon w'
       \<and> w_temperature w = w_temperature w'"
  by (auto simp: get_mock_weather_fields)

theorem weather_same_day_same_hour_witness:
  "get_mock_weather example_clock example_rnd = Inr example_weather
   \<and> get_mock_weather example_clock' example_rnd' = Inr example_weather'
   \<and> day (example_clock 0) = day (example_clock' 0)
   \<and> hour (example_clock 1) = hour (example_clock' 1)
   \<and> w_condition example_weather = w_condition example_weather'
   \<and> w_icon example_weather = w_icon example_weather'
   \<and> w_temperature example_weather = w_temperature example_weather'
   \<and> w_humidity example_weather \<noteq> w_humidity example_weather'
   \<and> w_wind example_weather \<noteq> w_wind example_weather'
   \<and> w_forecast example_weather \<noteq> w_forecast example_weather'"
proof -
  have d: "w_humidity example_weather \<noteq> w_humidity example_weather'"
    "w_wind example_weather \<noteq> w_wind example_weather'"
    "w_forecast example_weather \<noteq> w_forecast example_weather'"
    by (simp_all add: example_weather_def example_weather'_def)
  from weather_same_day_same_hour
    [of example_clock example_rnd example_weather example_clock' example_rnd' example_weather']
    example_weather_eval example_weather'_eval example_clock_reads d
  show ?thesis
    by simp
qed



text \<open>
  C10.  For every day of the month and every hour in 0..23 the rounded temperature lies
  in the selected condition's range and is not below the midpoint of the range; the
  interpolation factor lies in \<open>[1/2, 1]\<close>.
\<close>

theorem temperature_in_upper_half_of_range:
  "get_mock_weather now rnd = Inr w \<and> 0 \<le> hour (now 1) \<and> hour (now 1) \<le> 23
   \<longrightarrow> (case selected_range (day (now 0)) of (temp_min, temp_max) \<Rightarrow>
         temp_min \<le> w_temperature w \<and> w_temperature w \<le> temp_max
         \<and> temp_min + temp_max \<le> 2 * w_temperature w)
       \<and> 1 / 2 \<le> spec_factor (hour (now 1)) \<and> spec_factor (hour (now 1)) \<le> 1"
proof (intro impI, elim conjE)
  assume w: "get_mock_weather now rnd = Inr w" and h: "0 \<le> hour (now 1)" "hour (now 1) \<le> 23"
  obtain temp_min temp_max where r: "selected_range (day (now 0)) = (temp_min, temp_max)"
    by (cases "selected_range (day (now 0))")
  define s where "s = spec_temp temp_min temp_max (hour (now 1))"
  have t: "w_temperature w = round_half_even s"
    using displayed_temperature_exact [OF w h] r by (simp add: s_def)
  from h have h28: "hour (now 1) \<le> 28"
    by simp
  have f: "1 / 2 \<le> spec_factor (hour (now 1))" "spec_factor (hour (now 1)) \<le> 1"
    by (rule spec_factor_bounds [OF h(1) h28])+
  have rng: "(temp_min, temp_max) \<in> {(22, 32), (20, 28), (18, 25), (16, 22), (18, 26)}"
    using selected_range_cases [of "day (now 0)"] r by simp
  then have le: "(0::rat) \<le> of_int (temp_max - temp_min)"
    by auto
  have up: "s \<le> of_int temp_max"
  proof -
    have "of_int (temp_max - temp_min) * spec_factor (hour (now 1)) \<le> of_int (temp_max - temp_min) * 1"
      using le f(2) by (rule mult_left_mono [rotated])
    then show ?thesis
      by (simp add: s_def spec_temp_def)
  qed
  have lo: "of_int temp_min + of_int (temp_max - temp_min) * (1 / 2) \<le> s"
  proof -
    have "of_int (temp_max - temp_min) * (1 / 2) \<le> of_int (temp_max - temp_min) * spec_factor (hour (now 1))"
      using le f(1) by (rule mult_left_mono [rotated])
    then show ?thesis
      by (simp add: s_def spec_temp_def)
  qed
  have "w_temperature w \<le> temp_max"
    unfolding t using round_half_even_mono [OF up] by (simp add: round_half_even_of_int)
  moreover have "temp_min + temp_max \<le> 2 * w_temperature w \<and> temp_min \<le> w_temperature w"
  proof -
    have mid: "round_half_even (of_int temp_min + of_int (temp_max - temp_min) * (1 / 2))
        \<le> w_temperature w"
      unfolding t using lo by (rule round_half_even_mono)
    have e: "round_half_even (27 :: rat) = 27" "round_half_even (24 :: rat) = 24"
      "round_half_even (19 :: rat) = 19" "round_half_even (22 :: rat) = 22"
      using round_half_even_of_int [of 27] round_half_even_of_int [of 24]
        round_half_even_of_int [of 19] round_half_even_of_int [of 22] by simp_all
    have e': "round_half_even (43 / 2) = 22"
      by (rule round_half_even_tieI) simp_all
    from rng mid e e' show ?thesis
      by auto
  qed
  ultimately show "(case selected_range (day (now 0)) of (temp_min, temp_max) \<Rightarrow>
         temp_min \<le> w_temperature w \<and> w_temperature w \<le> temp_max
         \<and> temp_min + temp_max \<le> 2 * w_temperature w)
       \<and> 1 / 2 \<le> spec_factor (hour (now 1)) \<and> spec_factor (hour (now 1)) \<le> 1"
    using f by (simp add: r)
qed

theorem temperature_in_upper_half_of_range_witness:
  "get_mock_weather example_clock example_rnd = Inr example_weather
   \<and> hour (example_clock 1) = 15
   \<and> selected_range (day (example_clock 0)) = (22, 32)
   \<and> 22 \<le> w_temperature example_weather \<and> w_temperature example_weather \<le> 32
   \<and> 22 + 32 \<le> 2 * w_temperature example_weather
   \<and> 1 / 2 \<le> spec_factor 15 \<and> spec_factor 15 \<le> 1"
  using temperature_in_upper_half_of_range [of example_clock example_rnd example_weather]
    example_weather_eval example_clock_reads selected_range_10
  by simp

subsection \<open>The calendar of days\<close>

lemma days_in_month_cases:
  assumes "1 \<le> m" and "m \<le> 12"
  shows "days_in_month y m \<in> {28, 29, 30, 31}"
proof -
  from assms have "m \<in> {1, 2, 3, 4, 5, 6, 7, 8, 9, 10, 11, 12}"
    by (simp; arith)
  then show ?thesis
    by (auto simp: days_in_month_def DAYS_IN_MONTH_def)
qed

lemma days_in_month_ge: "1 \<le> m \<Longrightarrow> m \<le> 12 \<Longrightarrow> 28 \<le> days_in_month y m"
  using days_in_month_cases [of m y] by auto

text \<open>The next day is a later day, and the time of day is kept.\<close>

lemma next_day_later:
  assumes "next_day d = Inr d'"
  shows "(year d, month d, day d) < (year d', month d', day d')" and "date.more d' = date.more d"
  using assms by (auto simp: next_day_def less_prod_def split: if_splits)

lemma next_day_valid:
  assumes "valid_date d" and "next_day d = Inr d'"
  shows "valid_date d'"
  using assms days_in_month_ge [of "month d + 1" "year d"] days_in_month_ge [of 1 "year d + 1"]
  by (auto simp: next_day_def valid_date_def check_date_fields_def MINYEAR_def MAXYEAR_def
      split: if_splits)

lemma days_in_december: "days_in_month y 12 = 31"
  by (simp add: days_in_month_def DAYS_IN_MONTH_def)

lemma prev_day_valid:
  assumes "valid_date d" and "prev_day d = Inr d'"
  shows "valid_date d'"
  using assms days_in_month_ge [of "month d - 1" "year d"]
  by (auto simp: prev_day_def valid_date_def check_date_fields_def MINYEAR_def MAXYEAR_def
      days_in_december split: if_splits)

text \<open>The day after the day before is the day itself.\<close>

lemma next_day_prev_day:
  assumes "valid_date d" and "prev_day d = Inr d'"
  shows "next_day d' = Inr d"
  using assms days_in_month_ge [of "month d - 1" "year d"]
  by (auto simp: prev_day_def next_day_def valid_date_def check_date_fields_def MINYEAR_def
      MAXYEAR_def days_in_december split: if_splits)

lemma minus_days_Suc:
  "minus_days d (Suc k) = (case minus_days d k of Inl e \<Rightarrow> Inl e | Inr d' \<Rightarrow> prev_day d')"
proof (induction k arbitrary: d)
  case 0
  show ?case
    by (simp split: sum.splits)
next
  case (Suc k)
  show ?case
  proof (cases "prev_day d")
    case (Inl e)
    then show ?thesis
      by simp
  next
    case (Inr d')
    have "minus_days d (Suc (Suc k)) = minus_days d' (Suc k)"
      using Inr by simp
    also have "\<dots> = (case minus_days d' k of Inl e \<Rightarrow> Inl e | Inr x \<Rightarrow> prev_day x)"
      by (rule Suc.IH)
    also have "\<dots> = (case minus_days d (Suc k) of Inl e \<Rightarrow> Inl e | Inr x \<Rightarrow> prev_day x)"
      using Inr by simp
    finally show ?thesis .
  qed
qed

lemma minus_days_valid:
  "valid_date d \<Longrightarrow> minus_days d k = Inr d' \<Longrightarrow> valid_date d'"
  by (induction k arbitrary: d) (auto split: sum.splits dest: prev_day_valid)

text \<open>The operations on days do not look at the time of day.\<close>

lemma prev_day_today_start:
  "prev_day (today_start t) = (case prev_day t of Inl e \<Rightarrow> Inl e | Inr t' \<Rightarrow> Inr (today_start t'))"
  by (simp add: prev_day_def today_start_def)

lemma next_day_today_start:
  "next_day (today_start t) = (case next_day t of Inl e \<Rightarrow> Inl e | Inr t' \<Rightarrow> Inr (today_start t'))"
  by (simp add: next_day_def today_start_def)

lemma minus_days_today_start:
  "minus_days (today_start t) k
     = (case minus_days t k of Inl e \<Rightarrow> Inl e | Inr t' \<Rightarrow> Inr (today_start t'))"
  by (induction k arbitrary: t) (auto simp: prev_day_today_start split: sum.splits)

lemma today_start_eq:
  "date_of t = date_of t' \<Longrightarrow> today_start t = today_start t'"
  by (simp add: date_of_def today_start_def)

lemma today_start_idem: "today_start (today_start t) = today_start t"
  by (simp add: today_start_def)

lemma strftime_a_today_start: "strftime_a (today_start t) = strftime_a t"
  by (simp add: strftime_a_def weekday_def toordinal_def today_start_def)

lemma valid_date_today_start: "valid_date (today_start t) = valid_date t"
  by (simp add: valid_date_def today_start_def)

subsection \<open>The order of datetimes\<close>

lemma dt_total: "dt_less a b \<or> dt_le b a"
  unfolding dt_less_def dt_le_def by auto

lemma dt_less_not_le: "dt_less a b \<longleftrightarrow> \<not> dt_le b a"
  unfolding dt_less_def dt_le_def by auto

lemma dt_le_less_trans: "dt_le a b \<Longrightarrow> dt_less b c \<Longrightarrow> dt_less a c"
  unfolding dt_less_def dt_le_def by (rule le_less_trans)

lemma dt_less_le_trans: "dt_less a b \<Longrightarrow> dt_le b c \<Longrightarrow> dt_less a c"
  unfolding dt_less_def dt_le_def by (rule less_le_trans)

lemma dt_le_refl: "dt_le a a"
  by (simp add: dt_le_def)

lemma next_day_today_start_le:
  assumes "next_day (today_start t) = Inr t'"
  shows "dt_le (today_start t) t'"
  using assms
  by (auto simp: next_day_def today_start_def dt_le_def dt_key_def less_eq_prod_def
      split: if_splits)

text \<open>Two adjacent windows make one.\<close>

lemma window_split:
  assumes "dt_le a b" and "dt_le b c"
  shows "length (filter (in_window a b) ss) + length (filter (in_window b c) ss)
           = length (filter (in_window a c) ss)"
proof (induction ss)
  case Nil
  show ?case
    by simp
next
  case (Cons s ss)
  let ?x = "session_created_at s"
  have "in_window a c s \<longleftrightarrow> in_window a b s \<or> in_window b c s"
    using assms dt_total [of ?x b] dt_le_trans [of a b ?x] dt_less_le_trans [of ?x b c]
    unfolding in_window_def by blast
  moreover have "\<not> (in_window a b s \<and> in_window b c s)"
    unfolding in_window_def dt_less_not_le by blast
  ultimately show ?case
    using Cons.IH by auto
qed

lemma window_empty: "filter (in_window a a) ss = []"
  by (simp add: in_window_def dt_less_not_le)

lemma chain_le:
  assumes "\<forall>i < n. dt_le (c i) (c (Suc i))"
  shows "dt_le (c 0) (c n)"
  using assms by (induction n) (auto intro: dt_le_refl dt_le_trans)

lemma chain_count:
  assumes "\<forall>i < n. dt_le (c i) (c (Suc i))"
  shows "sum_list (map (\<lambda>i. length (filter (in_window (c i) (c (Suc i))) ss)) [0..<n])
           = length (filter (in_window (c 0) (c n)) ss)"
  using assms
proof (induction n)
  case 0
  show ?case
    by (simp add: window_empty)
next
  case (Suc n)
  then have "dt_le (c 0) (c n)" "dt_le (c n) (c (Suc n))"
    by (auto intro: chain_le)
  from window_split [OF this] Suc show ?case
    by simp
qed

lemma collect_map_Inr:
  "(\<forall>x \<in> set xs. f x = Inr (g x)) \<Longrightarrow> collect (map f xs) = Inr (map g xs)"
  by (induction xs) auto

subsection \<open>Ordinals\<close>

text \<open>
  The library adds days through the ordinal of a date.  The next day has the next
  ordinal, so \<open>plus_days\<close> and \<open>minus_days\<close> are the library's arithmetic; and the only
  days without a next or a previous day are the last and the first of the calendar.
\<close>

lemma div_step:
  fixes y n :: int
  assumes "0 < n"
  shows "y div n = (y - 1) div n + (if y mod n = 0 then 1 else 0)"
proof -
  define q where "q = (y - 1) div n"
  define r where "r = (y - 1) mod n"
  have r: "0 \<le> r" "r < n"
    using assms by (simp_all add: r_def)
  have y: "y = n * q + (r + 1)"
    using div_mult_mod_eq [of "y - 1" n] by (simp add: q_def r_def algebra_simps)
  show ?thesis
  proof (cases "r + 1 < n")
    case True
    with r y have "y div n = q" "y mod n = r + 1"
      by (auto intro: int_div_pos_eq int_mod_pos_eq)
    with r show ?thesis
      by (simp add: q_def)
  next
    case False
    with r have "r + 1 = n"
      by simp
    with y have "y = n * (q + 1) + 0"
      by (simp add: algebra_simps)
    with assms have "y div n = q + 1" "y mod n = 0"
      by (auto intro: int_div_pos_eq int_mod_pos_eq)
    then show ?thesis
      by (simp add: q_def)
  qed
qed

lemma mod_400_100_4:
  "(y::int) mod 400 = 0 \<Longrightarrow> y mod 100 = 0" "(y::int) mod 100 = 0 \<Longrightarrow> y mod 4 = 0"
  by (auto simp: mod_eq_0_iff_dvd dvd_def)

lemma days_before_next_year:
  "days_before_year (y + 1) = days_before_year y + 365 + (if is_leap y then 1 else 0)"
proof -
  define p4 p100 p400 where "p4 = (y mod 4 = 0)" and "p100 = (y mod 100 = 0)"
    and "p400 = (y mod 400 = 0)"
  define l4 l100 l400 :: int
    where "l4 = (if p4 then 1 else 0)" and "l100 = (if p100 then 1 else 0)"
      and "l400 = (if p400 then 1 else 0)"
  define b4 b100 b400 where "b4 = (y - 1) div 4" and "b100 = (y - 1) div 100"
    and "b400 = (y - 1) div 400"
  have e: "y div 4 = b4 + l4" "y div 100 = b100 + l100" "y div 400 = b400 + l400"
    unfolding l4_def l100_def l400_def b4_def b100_def b400_def p4_def p100_def p400_def
    by (rule div_step, simp)+
  have p: "p400 \<longrightarrow> p100" "p100 \<longrightarrow> p4"
    unfolding p4_def p100_def p400_def using mod_400_100_4 [of y] by blast+
  have il: "is_leap y = (p4 \<and> (\<not> p100 \<or> p400))"
    unfolding is_leap_def p4_def p100_def p400_def by (rule refl)
  have leap: "l4 - l100 + l400 = (if is_leap y then 1 else 0)"
    unfolding il l4_def l100_def l400_def using p by (cases p4; cases p100; cases p400) simp_all
  have "days_before_year (y + 1) = y * 365 + y div 4 - y div 100 + y div 400"
    by (simp add: days_before_year_def Let_def)
  also have "\<dots> = y * 365 + (b4 + l4) - (b100 + l100) + (b400 + l400)"
    by (simp only: e)
  also have "\<dots> = ((y - 1) * 365 + b4 - b100 + b400) + 365 + (l4 - l100 + l400)"
    by (simp add: algebra_simps)
  also have "(y - 1) * 365 + b4 - b100 + b400 = days_before_year y"
    by (simp only: days_before_year_def Let_def b4_def b100_def b400_def)
  finally show ?thesis
    by (simp only: leap)
qed

lemma days_before_next_month:
  assumes "1 \<le> m" and "m \<le> 11"
  shows "days_before_month y (m + 1) = days_before_month y m + days_in_month y m"
proof -
  from assms have "m \<in> {1, 2, 3, 4, 5, 6, 7, 8, 9, 10, 11}"
    by (simp; arith)
  then show ?thesis
    by (auto simp: days_before_month_def days_in_month_def DAYS_BEFORE_MONTH_def
        DAYS_IN_MONTH_def)
qed

lemma days_before_january: "days_before_month y 1 = 0"
  by (simp add: days_before_month_def DAYS_BEFORE_MONTH_def)

lemma days_before_december: "days_before_month y 12 = 334 + (if is_leap y then 1 else 0)"
  by (simp add: days_before_month_def DAYS_BEFORE_MONTH_def)

lemma toordinal_next_day:
  assumes "valid_date d" and "next_day d = Inr d'"
  shows "toordinal d' = toordinal d + 1"
proof (cases "day d < days_in_month (year d) (month d)")
  case True
  with assms(2) show ?thesis
    by (auto simp: next_day_def toordinal_def ymd2ord_def)
next
  case False
  with assms(1) have last: "day d = days_in_month (year d) (month d)"
    by (simp add: valid_date_def check_date_fields_def)
  from assms(1) have m: "1 \<le> month d" "month d \<le> 12"
    by (simp_all add: valid_date_def check_date_fields_def)
  show ?thesis
  proof (cases "month d < 12")
    case True
    then have "month d \<le> 11"
      by simp
    from days_before_next_month [OF m(1) this, of "year d"] True last assms(2) show ?thesis
      by (auto simp: next_day_def toordinal_def ymd2ord_def)
  next
    case False
    with m have "month d = 12"
      by simp
    with last assms(2) show ?thesis
      using days_before_next_year [of "year d"]
      by (auto simp: next_day_def toordinal_def ymd2ord_def days_in_december
          days_before_january days_before_december split: if_splits)
  qed
qed

lemma toordinal_prev_day:
  assumes "valid_date d" and "prev_day d = Inr d'"
  shows "toordinal d' = toordinal d - 1"
  using toordinal_next_day [OF prev_day_valid [OF assms] next_day_prev_day [OF assms]] by simp

text \<open>The first day of the calendar has ordinal 1, the last has ordinal 3652059.\<close>

lemma prev_day_exists:
  assumes "valid_date d" and "1 < toordinal d"
  shows "\<exists>d'. prev_day d = Inr d'"
proof (rule ccontr)
  assume "\<not> (\<exists>d'. prev_day d = Inr d')"
  then have "year d = 1 \<and> month d = 1 \<and> day d = 1"
    using assms(1)
    by (auto simp: prev_day_def valid_date_def check_date_fields_def MINYEAR_def
        split: if_splits)
  then have "toordinal d = 1"
    by (simp add: toordinal_def ymd2ord_def days_before_year_def days_before_january)
  with assms(2) show False
    by simp
qed

lemma next_day_exists:
  assumes "valid_date d" and "toordinal d < 3652059"
  shows "\<exists>d'. next_day d = Inr d'"
proof (rule ccontr)
  assume "\<not> (\<exists>d'. next_day d = Inr d')"
  then have "year d = 9999 \<and> month d = 12 \<and> day d = 31"
    using assms(1) days_in_december [of "year d"]
    by (auto simp: next_day_def valid_date_def check_date_fields_def MAXYEAR_def
        split: if_splits)
  then have "toordinal d = 3652059"
    by (simp add: toordinal_def ymd2ord_def days_before_year_def days_before_december is_leap_def)
  with assms(2) show False
    by simp
qed

lemma minus_days_exists:
  "valid_date d \<Longrightarrow> int k < toordinal d \<Longrightarrow> \<exists>d'. minus_days d k = Inr d'"
proof (induction k arbitrary: d)
  case 0
  show ?case
    by simp
next
  case (Suc k)
  then obtain p where p: "prev_day d = Inr p"
    using prev_day_exists [of d] by auto
  with Suc.prems have "valid_date p" "int k < toordinal p"
    using prev_day_valid [of d p] toordinal_prev_day [of d p] by auto
  from Suc.IH [OF this] p show ?case
    by simp
qed

subsection \<open>Today's sessions\<close>

lemma sqlite_sum_nonneg:
  "0 \<le> acc \<Longrightarrow> \<forall>v \<in> set vs. 0 \<le> v \<Longrightarrow> acc + sum_list vs < 2 ^ 63
     \<Longrightarrow> sqlite_sum acc vs = Inr (acc + sum_list vs)"
proof (induction vs arbitrary: acc)
  case Nil
  show ?case
    by simp
next
  case (Cons v vs)
  have "0 \<le> sum_list vs"
    using Cons.prems(2) by (simp add: sum_list_nonneg)
  with Cons.prems have "sqlite_integer (acc + v)"
    by (simp add: sqlite_integer_def)
  moreover have "sqlite_sum (acc + v) vs = Inr (acc + v + sum_list vs)"
    using Cons.prems by (intro Cons.IH) (simp_all add: add.assoc)
  ultimately show ?case
    by (simp add: add.assoc)
qed

lemma sqlite_sum_error: "sqlite_sum acc vs = Inl e \<Longrightarrow> e = OperationalError"
  by (induction vs arbitrary: acc) (auto split: if_splits)

lemma get_pomodoro_stats_cases:
  "(isl (total_minutes ss) \<and> get_pomodoro_stats now ss = Inl OperationalError)
   \<or> (\<exists>minutes. total_minutes ss = Inr minutes
        \<and> get_pomodoro_stats now ss
          = Inr \<lparr>stats_today_sessions =
                   length (filter (\<lambda>s. dt_le (today_start now) (session_created_at s)) ss),
                 stats_total_sessions = total_sessions ss,
                 stats_total_hours = minutes div 60\<rparr>)"
proof (cases "total_minutes ss")
  case (Inl e)
  then have "e = OperationalError"
    unfolding total_minutes_def by (rule sqlite_sum_error)
  with Inl show ?thesis
    by (simp add: get_pomodoro_stats_def)
next
  case (Inr minutes)
  then show ?thesis
    by (simp add: get_pomodoro_stats_def)
qed

lemma pomodoro_eq_stats: "pomodoro now ss = get_pomodoro_stats now ss"
  by (simp add: pomodoro_def get_pomodoro_stats_def)

lemma today_split:
  assumes "plus_days (today_start now) 1 = Inr tomorrow"
  shows "length (filter (\<lambda>s. dt_le (today_start now) (session_created_at s)) ss)
           = length (filter (in_window (today_start now) tomorrow) ss)
             + length (filter (\<lambda>s. dt_le tomorrow (session_created_at s)) ss)"
proof -
  from assms have le: "dt_le (today_start now) tomorrow"
    by (auto split: sum.splits dest: next_day_today_start_le)
  show ?thesis
  proof (induction ss)
    case Nil
    show ?case
      by simp
  next
    case (Cons s ss)
    have "dt_le tomorrow (session_created_at s) \<Longrightarrow> dt_le (today_start now) (session_created_at s)"
      using le by (rule dt_le_trans)
    with Cons show ?case
      by (auto simp: in_window_def dt_less_not_le)
  qed
qed

text \<open>
  C1, as stated, fails: a session created at the following midnight is counted by all
  three handlers, and is outside the window.
\<close>

theorem today_sessions_counterexample:
  "spec_today_count example_now [example_session_tomorrow] = Inr 0
   \<and> pomodoro example_now [example_session_tomorrow]
       = Inr \<lparr>stats_today_sessions = 1, stats_total_sessions = 1, stats_total_hours = 0\<rparr>
   \<and> get_pomodoro_stats example_now [example_session_tomorrow]
       = Inr \<lparr>stats_today_sessions = 1, stats_total_sessions = 1, stats_total_hours = 0\<rparr>
   \<and> dashboard_today_sessions example_now [example_session_tomorrow] = 1"
  by (simp add: spec_today_count_def pomodoro_def get_pomodoro_stats_def total_minutes_def
      total_sessions_def sqlite_integer_def
      dashboard_today_sessions_def example_session_tomorrow_def example_now_def today_start_def
      next_day_def days_in_month_def DAYS_IN_MONTH_def is_leap_def in_window_def dt_le_def
      dt_less_def dt_key_def)

text \<open>
  The dashboard keeps the microsecond of the clock in its threshold: half a second after
  a full second, it does not count a session created at midnight sharp, which the other
  two handlers count.
\<close>

lemma dashboard_today_sessions_microsecond:
  "dashboard_today_sessions (example_now\<lparr>microsecond := 500000\<rparr>) [example_session_midnight] = 0
   \<and> get_pomodoro_stats (example_now\<lparr>microsecond := 500000\<rparr>) [example_session_midnight]
       = Inr \<lparr>stats_today_sessions = 1, stats_total_sessions = 1, stats_total_hours = 0\<rparr>
   \<and> spec_today_count (example_now\<lparr>microsecond := 500000\<rparr>) [example_session_midnight] = Inr 1"
  by (simp add: spec_today_count_def get_pomodoro_stats_def total_minutes_def
      total_sessions_def sqlite_integer_def
      dashboard_today_sessions_def example_session_midnight_def example_now_def today_start_def
      next_day_def days_in_month_def DAYS_IN_MONTH_def is_leap_def in_window_def dt_le_def
      dt_less_def dt_key_def)

text \<open>
  C1, amended.  On the pomodoro page and in the statistics, the count of today's sessions
  is the number of sessions created at or after the midnight of now's date: no session
  created before that midnight is counted, and where the following midnight exists the
  count is the number of sessions in the window plus the number of sessions created at
  or after the following midnight.  The two handlers return the same figures; they fail,
  with OperationalError, exactly when the sum of the durations overflows in the
  database, which it does not when no duration is negative and the sum is below \<open>2^63\<close>.
  The count of the dashboard is the same when the clock value has no microseconds.
\<close>

theorem today_sessions_count:
  "(get_pomodoro_stats now ss = Inr st
      \<longrightarrow> stats_today_sessions st
          = length (filter (\<lambda>s. dt_le (today_start now) (session_created_at s)) ss))
   \<and> pomodoro now ss = get_pomodoro_stats now ss
   \<and> (isl (get_pomodoro_stats now ss) \<longleftrightarrow> isl (total_minutes ss))
   \<and> (isl (get_pomodoro_stats now ss) \<longleftrightarrow> get_pomodoro_stats now ss = Inl OperationalError)
   \<and> ((\<forall>s \<in> set ss. 0 \<le> duration s) \<and> sum_list (map duration ss) < 2 ^ 63
      \<longrightarrow> \<not> isl (get_pomodoro_stats now ss))
   \<and> (microsecond now = 0
      \<longrightarrow> dashboard_today_sessions now ss
          = length (filter (\<lambda>s. dt_le (today_start now) (session_created_at s)) ss))
   \<and> (plus_days (today_start now) 1 = Inr tomorrow
      \<longrightarrow> spec_today_count now ss = Inr (length (filter (in_window (today_start now) tomorrow) ss))
          \<and> length (filter (\<lambda>s. dt_le (today_start now) (session_created_at s)) ss)
              = length (filter (in_window (today_start now) tomorrow) ss)
                + length (filter (\<lambda>s. dt_le tomorrow (session_created_at s)) ss))"
proof -
  note alt = get_pomodoro_stats_cases [of ss now]
  have a: "get_pomodoro_stats now ss = Inr st
      \<longrightarrow> stats_today_sessions st
          = length (filter (\<lambda>s. dt_le (today_start now) (session_created_at s)) ss)"
    using alt by auto
  have b: "isl (get_pomodoro_stats now ss) \<longleftrightarrow> isl (total_minutes ss)"
    using alt by auto
  have c: "isl (get_pomodoro_stats now ss) \<longleftrightarrow> get_pomodoro_stats now ss = Inl OperationalError"
    using alt by auto
  have d: "(\<forall>s \<in> set ss. 0 \<le> duration s) \<and> sum_list (map duration ss) < 2 ^ 63
      \<longrightarrow> \<not> isl (get_pomodoro_stats now ss)"
  proof
    assume "(\<forall>s \<in> set ss. 0 \<le> duration s) \<and> sum_list (map duration ss) < 2 ^ 63"
    then have "sqlite_sum 0 (map duration ss) = Inr (0 + sum_list (map duration ss))"
      by (intro sqlite_sum_nonneg) simp_all
    then have "\<not> isl (total_minutes ss)"
      by (simp add: total_minutes_def)
    with b show "\<not> isl (get_pomodoro_stats now ss)"
      by simp
  qed
  have "now\<lparr>hour := 0, minute := 0, second := 0\<rparr> = today_start now" if "microsecond now = 0"
    using that by (simp add: today_start_def)
  then have e: "microsecond now = 0
      \<longrightarrow> dashboard_today_sessions now ss
          = length (filter (\<lambda>s. dt_le (today_start now) (session_created_at s)) ss)"
    by (simp add: dashboard_today_sessions_def)
  have f: "plus_days (today_start now) 1 = Inr tomorrow
      \<longrightarrow> spec_today_count now ss = Inr (length (filter (in_window (today_start now) tomorrow) ss))
          \<and> length (filter (\<lambda>s. dt_le (today_start now) (session_created_at s)) ss)
              = length (filter (in_window (today_start now) tomorrow) ss)
                + length (filter (\<lambda>s. dt_le tomorrow (session_created_at s)) ss)"
    using today_split [of now tomorrow ss] by (simp add: spec_today_count_def)
  from a pomodoro_eq_stats b c d e f show ?thesis
    by (intro conjI)
qed

theorem today_sessions_count_witness:
  "microsecond example_now = 0
   \<and> plus_days (today_start example_now) 1 = Inr (example_now\<lparr>day := 11, hour := 0\<rparr>)
   \<and> list_all (\<lambda>s. 0 \<le> duration s) example_sessions
   \<and> sum_list (map duration example_sessions) = 100
   \<and> spec_today_count example_now example_sessions = Inr 1
   \<and> get_pomodoro_stats example_now example_sessions
       = Inr \<lparr>stats_today_sessions = 2, stats_total_sessions = 3, stats_total_hours = 1\<rparr>
   \<and> pomodoro example_now example_sessions
       = Inr \<lparr>stats_today_sessions = 2, stats_total_sessions = 3, stats_total_hours = 1\<rparr>
   \<and> dashboard_today_sessions example_now example_sessions = 2
   \<and> length (filter (in_window (today_start example_now) (example_now\<lparr>day := 11, hour := 0\<rparr>))
        example_sessions) = 1
   \<and> length (filter (\<lambda>s. dt_le (example_now\<lparr>day := 11, hour := 0\<rparr>) (session_created_at s))
        example_sessions) = 1"
proof -
  note inst = today_sessions_count [of example_now example_sessions
      "\<lparr>stats_today_sessions = 2, stats_total_sessions = 3, stats_total_hours = 1\<rparr>"
      "example_now\<lparr>day := 11, hour := 0\<rparr>"]
  have m: "microsecond example_now = 0"
    by (simp add: example_now_def)
  have p: "plus_days (today_start example_now) 1 = Inr (example_now\<lparr>day := 11, hour := 0\<rparr>)"
    by (simp add: example_now_def today_start_def next_day_def days_in_month_def
        DAYS_IN_MONTH_def is_leap_def)
  have n: "list_all (\<lambda>s. 0 \<le> duration s) example_sessions"
    "sum_list (map duration example_sessions) = 100"
    by (simp_all add: example_sessions_def example_session_tomorrow_def)
  have s: "get_pomodoro_stats example_now example_sessions
       = Inr \<lparr>stats_today_sessions = 2, stats_total_sessions = 3, stats_total_hours = 1\<rparr>"
    by (simp add: get_pomodoro_stats_def total_minutes_def total_sessions_def sqlite_integer_def
        example_sessions_def example_session_tomorrow_def example_now_def today_start_def
        dt_le_def dt_key_def)
  have w: "length (filter (in_window (today_start example_now) (example_now\<lparr>day := 11, hour := 0\<rparr>))
        example_sessions) = 1"
    by (simp add: example_sessions_def example_session_tomorrow_def example_now_def
        today_start_def in_window_def dt_le_def dt_less_def dt_key_def)
  have a: "length (filter (\<lambda>s. dt_le (example_now\<lparr>day := 11, hour := 0\<rparr>) (session_created_at s))
        example_sessions) = 1"
    by (simp add: example_sessions_def example_session_tomorrow_def example_now_def
        dt_le_def dt_key_def)
  have t: "length (filter (\<lambda>s. dt_le (today_start example_now) (session_created_at s))
        example_sessions) = 2"
    using inst [THEN conjunct1] s by simp
  have q: "pomodoro example_now example_sessions
       = Inr \<lparr>stats_today_sessions = 2, stats_total_sessions = 3, stats_total_hours = 1\<rparr>"
    using inst [THEN conjunct2, THEN conjunct1] s by simp
  have d: "dashboard_today_sessions example_now example_sessions = 2"
    using inst [THEN conjunct2, THEN conjunct2, THEN conjunct2, THEN conjunct2, THEN conjunct2,
      THEN conjunct1] m t by simp
  have c: "spec_today_count example_now example_sessions = Inr 1"
    using inst [THEN conjunct2, THEN conjunct2, THEN conjunct2, THEN conjunct2, THEN conjunct2,
      THEN conjunct2] p w by simp
  from m p n c s q d w a show ?thesis
    by (intro conjI)
qed

subsection \<open>The weekly chart\<close>

text \<open>The days of the trailing week exist as soon as the first of them does.\<close>

lemma minus_days_earlier:
  assumes "minus_days d (Suc k) = Inr w"
  shows "\<exists>x. minus_days d k = Inr x \<and> prev_day x = Inr w"
  using assms unfolding minus_days_Suc by (auto split: sum.splits)

lemma minus_days_le:
  "minus_days d n = Inr w \<Longrightarrow> k \<le> n \<Longrightarrow> \<exists>x. minus_days d k = Inr x"
proof (induction n arbitrary: w)
  case 0
  then show ?case
    by simp
next
  case (Suc n)
  show ?case
  proof (cases "k = Suc n")
    case True
    with Suc.prems show ?thesis
      by blast
  next
    case False
    from minus_days_earlier [OF Suc.prems(1)] obtain x where "minus_days d n = Inr x"
      by blast
    with Suc.IH Suc.prems(2) False show ?thesis
      by simp
  qed
qed

text \<open>
  One entry of the chart: when the clock value of the iteration is of today's date, the
  entry counts the sessions of the window that begins at the midnight \<open>6 - i\<close> days
  before today's and ends at the next midnight.
\<close>

lemma weekly_entry_window:
  assumes same: "today_start now_i = t"
    and lo: "minus_days t (6 - i) = Inr lo"
    and hi: "next_day lo = Inr hi"
  shows "weekly_entry now_i i ss = Inr (strftime_a lo, length (filter (in_window lo hi) ss))"
proof -
  from lo same obtain d where d: "minus_days now_i (6 - i) = Inr d" and s: "today_start d = lo"
    by (auto simp: minus_days_today_start split: sum.splits)
  have "d\<lparr>hour := 0, minute := 0, second := 0, microsecond := 0\<rparr> = lo"
    using s by (simp add: today_start_def)
  moreover have "plus_days lo 1 = Inr hi"
    using hi by simp
  moreover have "strftime_a d = strftime_a lo"
    using s strftime_a_today_start [of d] by simp
  ultimately show ?thesis
    using d by (simp add: weekly_entry_def in_window_def [abs_def])
qed

lemma weekly_data_sum:
  assumes valid: "valid_date (now 0)"
    and same: "\<forall>i < 7. date_of (now i) = date_of (now 0)"
    and ws: "minus_days (today_start (now 0)) 6 = Inr week_start"
    and we: "plus_days (today_start (now 0)) 1 = Inr week_end"
  shows "\<exists>c. c 0 = week_start \<and> c 6 = today_start (now 0) \<and> c 7 = week_end
           \<and> (\<forall>i < 7. minus_days (today_start (now 0)) (6 - i) = Inr (c i)
                  \<and> plus_days (c i) 1 = Inr (c (Suc i)))
           \<and> weekly_data now ss
               = Inr (map (\<lambda>i. (strftime_a (c i), length (filter (in_window (c i) (c (Suc i))) ss)))
                   [0..<7])
           \<and> sum_list (map (\<lambda>i. length (filter (in_window (c i) (c (Suc i))) ss)) [0..<7])
               = length (filter (in_window week_start week_end) ss)"
proof -
  define t where "t = today_start (now 0)"
  define c where "c i = (if i \<le> 6 then projr (minus_days t (6 - i)) else week_end)" for i
  have vt: "valid_date t"
    using valid by (simp add: t_def valid_date_today_start)
  have ago: "minus_days t (6 - i) = Inr (c i)" if "i \<le> 6" for i
  proof -
    from minus_days_le [OF ws [folded t_def], of "6 - i"] obtain x
      where "minus_days t (6 - i) = Inr x"
      by auto
    with that show ?thesis
      by (simp add: c_def)
  qed
  have c0: "c 0 = week_start"
    using ago [of 0] ws by (simp add: t_def)
  have c6: "c 6 = t"
    using ago [of 6] by simp
  have c7: "c 7 = week_end"
    by (simp add: c_def)
  have step: "next_day (c i) = Inr (c (Suc i))" if "i < 7" for i
  proof (cases "i = 6")
    case True
    with we c6 c7 show ?thesis
      by (auto simp: t_def split: sum.splits)
  next
    case False
    with that have i: "i \<le> 5"
      by simp
    then have "6 - i = Suc (6 - Suc i)"
      by simp
    with ago [of i] i have "minus_days t (Suc (6 - Suc i)) = Inr (c i)"
      by simp
    from minus_days_earlier [OF this] ago [of "Suc i"] i
    have p: "prev_day (c (Suc i)) = Inr (c i)"
      by simp
    have "valid_date (c (Suc i))"
      using vt ago [of "Suc i"] i by (auto intro: minus_days_valid)
    then show ?thesis
      using p by (rule next_day_prev_day)
  qed
  have start: "today_start (c i) = c i" if "i \<le> 7" for i
  proof (cases "i \<le> 6")
    case True
    from ago [OF this] obtain x where "today_start x = c i"
      by (auto simp: t_def minus_days_today_start split: sum.splits)
    then show ?thesis
      using today_start_idem [of x] by simp
  next
    case False
    with that have "i = 7"
      by simp
    with we c7 obtain x where "today_start x = c i"
      by (auto simp: next_day_today_start split: sum.splits)
    then show ?thesis
      using today_start_idem [of x] by simp
  qed
  have le: "\<forall>i < 7. dt_le (c i) (c (Suc i))"
  proof (intro allI impI)
    fix i :: nat
    assume i: "i < 7"
    from i have s: "today_start (c i) = c i"
      by (intro start) simp
    from step [OF i] have "next_day (today_start (c i)) = Inr (c (Suc i))"
      by (simp only: s)
    then have "dt_le (today_start (c i)) (c (Suc i))"
      by (rule next_day_today_start_le)
    then show "dt_le (c i) (c (Suc i))"
      by (simp only: s)
  qed
  have entry: "weekly_entry (now i) i ss
      = Inr (strftime_a (c i), length (filter (in_window (c i) (c (Suc i))) ss))" if "i < 7" for i
  proof -
    from same that have "date_of (now i) = date_of (now 0)"
      by blast
    then have e1: "today_start (now i) = t"
      unfolding t_def by (rule today_start_eq)
    have e2: "minus_days t (6 - i) = Inr (c i)"
      using that by (intro ago) simp
    have e3: "next_day (c i) = Inr (c (Suc i))"
      using that by (rule step)
    from e1 e2 e3 show ?thesis
      by (rule weekly_entry_window)
  qed
  have data: "weekly_data now ss
      = Inr (map (\<lambda>i. (strftime_a (c i), length (filter (in_window (c i) (c (Suc i))) ss))) [0..<7])"
    unfolding weekly_data_def by (rule collect_map_Inr) (simp add: entry)
  have sum: "sum_list (map (\<lambda>i. length (filter (in_window (c i) (c (Suc i))) ss)) [0..<7])
      = length (filter (in_window week_start week_end) ss)"
    using chain_count [OF le, of ss] c0 c7 by simp
  have days: "\<forall>i < 7. minus_days (today_start (now 0)) (6 - i) = Inr (c i)
      \<and> plus_days (c i) 1 = Inr (c (Suc i))"
    using ago step by (simp add: t_def)
  from c0 c6 c7 days data sum show ?thesis
    unfolding t_def by blast
qed

text \<open>
  C5.  Let the clock values read by the seven iterations be of one valid date, from
  0001-01-07 to 9999-12-30 (the dates for which the library can form the trailing week
  and the next midnight).  Then the chart is returned with seven entries, oldest day
  first, entry \<open>i\<close> counting the sessions created from the midnight \<open>6 - i\<close> days before
  today's up to the next midnight; the counts add up to the number of sessions of the
  trailing week, which together with the number of sessions outside the week is the
  count of all sessions; so the sum is that count when every session is of the trailing
  week.  The count of all sessions is the total count that the statistics return.
\<close>

theorem weekly_histogram_sum:
  "(get_pomodoro_stats t ss = Inr st \<longrightarrow> stats_total_sessions st = total_sessions ss)
   \<and> (valid_date (now 0) \<and> (\<forall>i < 7. date_of (now i) = date_of (now 0))
   \<and> 7 \<le> toordinal (now 0) \<and> toordinal (now 0) < MAXORDINAL
   \<longrightarrow> (\<exists>week_start week_end buckets.
         minus_days (today_start (now 0)) 6 = Inr week_start
         \<and> plus_days (today_start (now 0)) 1 = Inr week_end
         \<and> weekly_data now ss = Inr buckets \<and> length buckets = 7
         \<and> (\<forall>i < 7. \<exists>lo hi.
               minus_days (today_start (now 0)) (6 - i) = Inr lo \<and> plus_days lo 1 = Inr hi
               \<and> buckets ! i = (strftime_a lo, length (filter (in_window lo hi) ss)))
         \<and> sum_list (map snd buckets) = length (filter (in_window week_start week_end) ss)
         \<and> sum_list (map snd buckets)
             + length (filter (\<lambda>s. \<not> in_window week_start week_end s) ss)
             = total_sessions ss
         \<and> (list_all (in_window week_start week_end) ss
            \<longrightarrow> sum_list (map snd buckets) = total_sessions ss)))"
proof (intro conjI impI, goal_cases)
  case 1
  then show ?case
    by (auto simp: get_pomodoro_stats_def Let_def split: sum.splits)
next
  case 2
  then have valid: "valid_date (now 0)" and same: "\<forall>i < 7. date_of (now i) = date_of (now 0)"
    and lo: "7 \<le> toordinal (now 0)" and hi: "toordinal (now 0) < MAXORDINAL"
    by blast+
  let ?t = "today_start (now 0)"
  have vt: "valid_date ?t"
    using valid by (simp add: valid_date_today_start)
  have ot: "toordinal ?t = toordinal (now 0)"
    by (simp add: toordinal_def today_start_def)
  from minus_days_exists [OF vt, of 6] lo obtain week_start
    where ws: "minus_days ?t 6 = Inr week_start"
    by (auto simp: ot)
  from next_day_exists [OF vt] hi obtain week_end where "next_day ?t = Inr week_end"
    by (auto simp: ot MAXORDINAL_def)
  then have we: "plus_days ?t 1 = Inr week_end"
    by simp
  let ?P = "in_window week_start week_end"
  from weekly_data_sum [OF valid same ws we, of ss] obtain c
    where days: "\<forall>i < 7. minus_days ?t (6 - i) = Inr (c i) \<and> plus_days (c i) 1 = Inr (c (Suc i))"
      and data: "weekly_data now ss
        = Inr (map (\<lambda>i. (strftime_a (c i), length (filter (in_window (c i) (c (Suc i))) ss)))
            [0..<7])"
      and sum: "sum_list (map (\<lambda>i. length (filter (in_window (c i) (c (Suc i))) ss)) [0..<7])
        = length (filter ?P ss)"
    by blast
  define buckets
    where "buckets = map (\<lambda>i. (strftime_a (c i), length (filter (in_window (c i) (c (Suc i))) ss)))
      [0..<7]"
  have len: "length buckets = 7"
    by (simp add: buckets_def)
  have nth: "buckets ! i = (strftime_a (c i), length (filter (in_window (c i) (c (Suc i))) ss))"
    if "i < 7" for i
  proof -
    have "i < 7 - 0"
      using that by simp
    then show ?thesis
      unfolding buckets_def by (subst nth_map_upt) simp_all
  qed
  have each: "\<forall>i < 7. \<exists>lo hi.
      minus_days ?t (6 - i) = Inr lo \<and> plus_days lo 1 = Inr hi
      \<and> buckets ! i = (strftime_a lo, length (filter (in_window lo hi) ss))"
    using days nth by blast
  have "map snd buckets = map (\<lambda>i. length (filter (in_window (c i) (c (Suc i))) ss)) [0..<7]"
    unfolding buckets_def by (simp only: map_map comp_def snd_conv)
  with sum have total: "sum_list (map snd buckets) = length (filter ?P ss)"
    by simp
  have stats: "total_sessions ss = length ss"
    by (simp add: total_sessions_def)
  have compl: "sum_list (map snd buckets) + length (filter (\<lambda>s. \<not> ?P s) ss)
      = total_sessions ss"
    unfolding total stats by (rule sum_length_filter_compl)
  have all: "list_all ?P ss
      \<longrightarrow> sum_list (map snd buckets) = total_sessions ss"
    unfolding total stats by (simp add: list_all_iff)
  from ws we data [folded buckets_def] len each total compl all
  show ?case
    by blast
qed

theorem weekly_histogram_sum_witness:
  "valid_date (example_clock 0)
   \<and> date_of (example_clock 6) = date_of (example_clock 0)
   \<and> 7 \<le> toordinal (example_clock 0) \<and> toordinal (example_clock 0) < MAXORDINAL
   \<and> minus_days (today_start (example_clock 0)) 6 = Inr (example_now\<lparr>day := 4, hour := 0\<rparr>)
   \<and> plus_days (today_start (example_clock 0)) 1 = Inr (example_now\<lparr>day := 11, hour := 0\<rparr>)
   \<and> weekly_data example_clock example_sessions
       = Inr [(''Tue'', 0), (''Wed'', 0), (''Thu'', 0), (''Fri'', 0), (''Sat'', 0), (''Sun'', 0),
              (''Mon'', 1)]
   \<and> length (filter (in_window (example_now\<lparr>day := 4, hour := 0\<rparr>)
                 (example_now\<lparr>day := 11, hour := 0\<rparr>)) example_sessions) = 1
   \<and> length (filter (\<lambda>s. \<not> in_window (example_now\<lparr>day := 4, hour := 0\<rparr>)
                 (example_now\<lparr>day := 11, hour := 0\<rparr>) s) example_sessions) = 2
   \<and> total_sessions example_sessions = 3
   \<and> get_pomodoro_stats (example_clock 0) example_sessions
       = Inr \<lparr>stats_today_sessions = 2, stats_total_sessions = 3, stats_total_hours = 1\<rparr>"
proof -
  have v: "valid_date (example_clock 0)"
    by (simp add: example_clock_def example_now_def valid_date_def check_date_fields_def
        MINYEAR_def MAXYEAR_def days_in_month_def DAYS_IN_MONTH_def is_leap_def)
  have same: "\<forall>i < 7. date_of (example_clock i) = date_of (example_clock 0)"
    by (simp add: example_clock_def date_of_def)
  have ord: "toordinal (example_clock 0) = 739047"
    by (simp add: example_clock_def example_now_def toordinal_def ymd2ord_def
        days_before_year_def days_before_month_def DAYS_BEFORE_MONTH_def is_leap_def)
  have ws: "minus_days (today_start (example_clock 0)) 6 = Inr (example_now\<lparr>day := 4, hour := 0\<rparr>)"
    by (simp add: example_clock_def example_now_def today_start_def prev_day_def
        eval_nat_numeral)
  have we: "plus_days (today_start (example_clock 0)) 1 = Inr (example_now\<lparr>day := 11, hour := 0\<rparr>)"
    by (simp add: example_clock_def example_now_def today_start_def next_day_def
        days_in_month_def DAYS_IN_MONTH_def is_leap_def)
  have data: "weekly_data example_clock example_sessions
       = Inr [(''Tue'', 0), (''Wed'', 0), (''Thu'', 0), (''Fri'', 0), (''Sat'', 0), (''Sun'', 0),
              (''Mon'', 1)]"
    by code_simp
  have stats: "get_pomodoro_stats (example_clock 0) example_sessions
       = Inr \<lparr>stats_today_sessions = 2, stats_total_sessions = 3, stats_total_hours = 1\<rparr>"
    by (simp add: get_pomodoro_stats_def total_minutes_def total_sessions_def sqlite_integer_def
        example_sessions_def example_session_tomorrow_def example_clock_def example_now_def
        today_start_def dt_le_def dt_key_def)
  note inst = weekly_histogram_sum [of "example_clock 0" example_sessions
      "\<lparr>stats_today_sessions = 2, stats_total_sessions = 3, stats_total_hours = 1\<rparr>"
      example_clock]
  have total: "total_sessions example_sessions = 3"
    using inst [THEN conjunct1] stats by simp
  have o1: "7 \<le> toordinal (example_clock 0)" and o2: "toordinal (example_clock 0) < MAXORDINAL"
    by (simp_all add: ord MAXORDINAL_def)
  have hyps: "valid_date (example_clock 0)
      \<and> (\<forall>i < 7. date_of (example_clock i) = date_of (example_clock 0))
      \<and> 7 \<le> toordinal (example_clock 0) \<and> toordinal (example_clock 0) < MAXORDINAL"
    using v same o1 o2 by (intro conjI)
  from inst [THEN conjunct2, THEN mp, OF hyps]
  obtain week_start week_end buckets
    where "minus_days (today_start (example_clock 0)) 6 = Inr week_start"
      and "plus_days (today_start (example_clock 0)) 1 = Inr week_end"
      and "weekly_data example_clock example_sessions = Inr buckets"
      and s: "sum_list (map snd buckets) = length (filter (in_window week_start week_end) example_sessions)"
      and t: "sum_list (map snd buckets)
             + length (filter (\<lambda>s. \<not> in_window week_start week_end s) example_sessions)
             = total_sessions example_sessions"
    by blast
  then have eqs: "week_start = example_now\<lparr>day := 4, hour := 0\<rparr>"
      "week_end = example_now\<lparr>day := 11, hour := 0\<rparr>"
      "buckets = [(''Tue'', 0), (''Wed'', 0), (''Thu'', 0), (''Fri'', 0), (''Sat'', 0), (''Sun'', 0),
              (''Mon'', 1)]"
    by (simp_all only: ws we data sum.inject)
  have inside: "length (filter (in_window (example_now\<lparr>day := 4, hour := 0\<rparr>)
                 (example_now\<lparr>day := 11, hour := 0\<rparr>)) example_sessions) = 1"
    using s unfolding eqs by simp
  have outside: "length (filter (\<lambda>s. \<not> in_window (example_now\<lparr>day := 4, hour := 0\<rparr>)
                 (example_now\<lparr>day := 11, hour := 0\<rparr>) s) example_sessions) = 2"
    using t unfolding eqs total by simp
  have d6: "date_of (example_clock 6) = date_of (example_clock 0)"
    by (simp add: example_clock_def date_of_def)
  from v d6 o1 o2 ws we data inside outside total stats show ?thesis
    by (intro conjI)
qed

(*THEOREMS-END*)
end
